theory Spec2Isabelle
  imports Main "HOL-Library.Sublist" "HOL-Library.AList"
begin

section \<open>The experimental-release script \<^verbatim>\<open>scripts/exp/release.ts\<close>\<close>

text \<open>
  The script publishes the \<^verbatim>\<open>-exp\<close> packages of the SDK: it computes the next versions,
  rewrites every \<^verbatim>\<open>package.json\<close> (names without \<^verbatim>\<open>-exp\<close>, new versions, public),
  publishes, resets the working tree and bumps the umbrella package \<^verbatim>\<open>firebase-exp\<close>.
  Strings are \<^typ>\<open>string\<close>: lists of 8-bit characters, so the two line terminators
  U+2028 and U+2029 of JavaScript are outside the alphabet of this development.
\<close>

subsection \<open>\<^verbatim>\<open>removeExpInPackageName\<close>: the regular expression\<close>

text \<open>
  \<^verbatim>\<open>const regex = /^(.*firebase.*)-exp(.*)$/g; const captures = regex.exec(name);\<close>
  The literal is evaluated at every call, so \<^verbatim>\<open>lastIndex\<close> is 0 and the match starts at the
  first character; \<^verbatim>\<open>^\<close> and \<^verbatim>\<open>$\<close> (no \<^verbatim>\<open>m\<close> flag) are the two ends of the input.
  The matcher is the backtracking one of ECMAScript, in continuation-passing style: a
  pattern takes the continuation that matches the rest of the expression, and
  \<^verbatim>\<open>.*\<close> first tries to take one more character and only then the continuation at
  the current position (greedy).
\<close>

definition dot :: "char \<Rightarrow> bool" where
  \<comment> \<open>\<^verbatim>\<open>.\<close> matches every character but a line terminator (line feed, carriage return).\<close>
  "dot c \<longleftrightarrow> c \<noteq> CHR 0x0A \<and> c \<noteq> CHR 0x0D"

fun star_dot :: "(string \<Rightarrow> string \<Rightarrow> 'a option) \<Rightarrow> string \<Rightarrow> string \<Rightarrow> 'a option" where
  \<comment> \<open>\<^verbatim>\<open>.*\<close>: the text taken so far, the input left; the continuation gets both.\<close>
  "star_dot k taken [] = k taken []"
| "star_dot k taken (c # cs) =
     (if dot c
      then (case star_dot k (taken @ [c]) cs of
              Some r \<Rightarrow> Some r
            | None \<Rightarrow> k taken (c # cs))
      else k taken (c # cs))"

definition literal :: "string \<Rightarrow> (string \<Rightarrow> 'a option) \<Rightarrow> string \<Rightarrow> 'a option" where
  \<comment> \<open>a run of literal characters\<close>
  "literal p k s = (if take (length p) s = p then k (drop (length p) s) else None)"

definition end_of_input :: "'a \<Rightarrow> string \<Rightarrow> 'a option" where
  \<comment> \<open>\<^verbatim>\<open>$\<close>\<close>
  "end_of_input r s = (if s = [] then Some r else None)"

definition regex_exec :: "string \<Rightarrow> (string \<times> string) option" where
  \<comment> \<open>the two capture groups of \<^verbatim>\<open>/^(.*firebase.*)-exp(.*)$/\<close>, or \<open>None\<close> for \<^verbatim>\<open>null\<close>\<close>
  "regex_exec name =
     star_dot (\<lambda>a s1.
       literal ''firebase'' (\<lambda>s2.
         star_dot (\<lambda>b s3.
           literal ''-exp'' (\<lambda>s4.
             star_dot (\<lambda>c s5. end_of_input (a @ ''firebase'' @ b, c) s5) [] s4) s3) [] s2) s1)
       [] name"

definition removeExpInPackageName :: "string \<Rightarrow> string" where
  "removeExpInPackageName name =
     (case regex_exec name of
        None \<Rightarrow> name
      | Some (c1, c2) \<Rightarrow> c1 @ c2)"

subsection \<open>JavaScript values, maps and objects\<close>

datatype jsstr = Undefined | Null | Str string
  \<comment> \<open>a value that is a string, \<^verbatim>\<open>null\<close> or \<^verbatim>\<open>undefined\<close>\<close>

fun truthy :: "jsstr \<Rightarrow> bool" where
  "truthy Undefined = False"
| "truthy Null = False"
| "truthy (Str s) = (s \<noteq> [])"

fun to_string :: "jsstr \<Rightarrow> string" where
  \<comment> \<open>the value inside a template literal\<close>
  "to_string Undefined = ''undefined''"
| "to_string Null = ''null''"
| "to_string (Str s) = s"

type_synonym versions = "(string \<times> jsstr) list"
  \<comment> \<open>\<^verbatim>\<open>Map<string, string>\<close> in insertion order; a stored value may be \<^verbatim>\<open>undefined\<close> or \<^verbatim>\<open>null\<close>\<close>

definition Map_get :: "versions \<Rightarrow> string \<Rightarrow> jsstr" where
  "Map_get m k = (case map_of m k of None \<Rightarrow> Undefined | Some v \<Rightarrow> v)"

definition Map_set :: "versions \<Rightarrow> string \<Rightarrow> jsstr \<Rightarrow> versions" where
  \<comment> \<open>a key that is present keeps its place; a new key goes last\<close>
  "Map_set m k v = AList.update k v m"

type_synonym deps = "(string \<times> string) list"
  \<comment> \<open>an object \<^verbatim>\<open>{ [key: string]: string }\<close>, its keys in the order of \<^verbatim>\<open>Object.keys\<close>
     (insertion order; keys that are array indices, which JavaScript lists first, are not
     package names)\<close>

type_synonym path = string

record packageJson =
  name :: string
  version :: jsstr
  isPrivate :: "bool option"
  dependencies :: "deps option"
  peerDependencies :: "deps option"
  devDependencies :: "deps option"

text \<open>
  A descriptor as \<^verbatim>\<open>JSON.parse\<close> gives it and \<^verbatim>\<open>JSON.stringify\<close> writes it: \<open>isPrivate\<close> is the
  field \<^verbatim>\<open>private\<close>; an absent field is \<open>None\<close> (\<open>Undefined\<close> for the version), and
  \<^verbatim>\<open>JSON.stringify\<close> leaves a field out whose value is \<^verbatim>\<open>undefined\<close>. The script reads
  and writes no other field of the file.
\<close>

record options =
  removeExpInName :: bool
  updateVersions :: bool
  makePublic :: bool

subsection \<open>The semver package\<close>

text \<open>
  \<^verbatim>\<open>import { inc } from 'semver'\<close>: the package is a dependency, not code of this
  repository. \<open>SemVer\<close> is its (strict) constructor: a string of at most 256 characters
  that, trimmed, matches
  \<^verbatim>\<open>^v?(N)\.(N)\.(N)(?:-(P(?:\.P)*))?(?:\+(B(?:\.B)*))?$\<close>, where \<^verbatim>\<open>N\<close> is \<^verbatim>\<open>0|[1-9]\d*\<close>,
  \<^verbatim>\<open>B\<close> is \<^verbatim>\<open>[0-9A-Za-z-]+\<close> and \<^verbatim>\<open>P\<close> is \<^verbatim>\<open>N\<close> or \<^verbatim>\<open>\d*[a-zA-Z-][a-zA-Z0-9-]*\<close>, and whose three
  numbers are at most \<^verbatim>\<open>Number.MAX_SAFE_INTEGER\<close>. The precedence of versions is the one
  of Semantic Versioning 2.0.0, clause 11, as \<^verbatim>\<open>compare\<close> of the package computes it;
  numeric identifiers are compared by their exact value (the package compares them as
  JavaScript numbers, which is the same below \<^verbatim>\<open>2^53\<close>).
\<close>

definition is_digit :: "char \<Rightarrow> bool" where
  "is_digit c \<longleftrightarrow> c \<in> set ''0123456789''"

definition is_letter_dash_number :: "char \<Rightarrow> bool" where
  "is_letter_dash_number c \<longleftrightarrow>
     c \<in> set ''abcdefghijklmnopqrstuvwxyzABCDEFGHIJKLMNOPQRSTUVWXYZ0123456789-''"

definition is_white_space :: "char \<Rightarrow> bool" where
  \<comment> \<open>white space and line terminators, as \<^verbatim>\<open>String.prototype.trim\<close> removes them\<close>
  "is_white_space c \<longleftrightarrow>
     c \<in> set [CHR 0x09, CHR 0x0A, CHR 0x0B, CHR 0x0C, CHR 0x0D, CHR 0x20, CHR 0xA0]"

definition trim :: "string \<Rightarrow> string" where
  "trim s = rev (dropWhile is_white_space (rev (dropWhile is_white_space s)))"

definition digit_val :: "char \<Rightarrow> nat" where
  "digit_val c = length (takeWhile (\<lambda>d. d \<noteq> c) ''0123456789'')"

definition to_number :: "string \<Rightarrow> nat" where
  \<comment> \<open>the value of a string of digits\<close>
  "to_number s = fold (\<lambda>c n. 10 * n + digit_val c) s 0"

fun show_nat :: "nat \<Rightarrow> string" where
  \<comment> \<open>a number in a template literal: its decimal digits\<close>
  "show_nat n =
     (if n < 10 then [''0123456789'' ! n]
      else show_nat (n div 10) @ [''0123456789'' ! (n mod 10)])"

declare show_nat.simps [simp del]

fun split_on :: "char \<Rightarrow> string \<Rightarrow> string list" where
  \<comment> \<open>\<^verbatim>\<open>s.split(sep)\<close> for a separator of one character\<close>
  "split_on sep [] = [[]]"
| "split_on sep (c # cs) =
     (if c = sep then [] # split_on sep cs
      else (c # hd (split_on sep cs)) # tl (split_on sep cs))"

fun join :: "string \<Rightarrow> string list \<Rightarrow> string" where
  "join sep [] = []"
| "join sep [x] = x"
| "join sep (x # y # ys) = x @ sep @ join sep (y # ys)"

definition MAX_LENGTH :: nat where
  "MAX_LENGTH = 256"

definition MAX_SAFE_INTEGER :: nat where
  "MAX_SAFE_INTEGER = 9007199254740991"

definition is_numeric_identifier :: "string \<Rightarrow> bool" where
  \<comment> \<open>\<^verbatim>\<open>0|[1-9]\d*\<close>\<close>
  "is_numeric_identifier s \<longleftrightarrow>
     s \<noteq> [] \<and> (\<forall>c \<in> set s. is_digit c) \<and> (s = ''0'' \<or> hd s \<noteq> CHR ''0'')"

definition is_prerelease_identifier :: "string \<Rightarrow> bool" where
  \<comment> \<open>a numeric identifier, or digits, letters and hyphens that are not all digits\<close>
  "is_prerelease_identifier s \<longleftrightarrow>
     s \<noteq> [] \<and> (\<forall>c \<in> set s. is_letter_dash_number c) \<and>
     ((\<forall>c \<in> set s. is_digit c) \<longrightarrow> is_numeric_identifier s)"

definition is_build_identifier :: "string \<Rightarrow> bool" where
  "is_build_identifier s \<longleftrightarrow> s \<noteq> [] \<and> (\<forall>c \<in> set s. is_letter_dash_number c)"

record semver =
  major :: nat
  minor :: nat
  patch :: nat
  prerelease :: "string list"
  build :: "string list"

definition strip_v :: "string \<Rightarrow> string" where
  \<comment> \<open>\<^verbatim>\<open>v?\<close>\<close>
  "strip_v t = (case t of [] \<Rightarrow> [] | c # r \<Rightarrow> if c = CHR ''v'' then r else t)"

definition identifiers_after :: "char \<Rightarrow> string \<Rightarrow> string list" where
  \<comment> \<open>the dot-separated identifiers after the first \<open>sep\<close>; none when there is no \<open>sep\<close>\<close>
  "identifiers_after sep s =
     (let rest = dropWhile (\<lambda>c. c \<noteq> sep) s
      in if rest = [] then [] else split_on CHR ''.'' (tl rest))"

definition SemVer :: "string \<Rightarrow> semver option" where
  \<comment> \<open>\<^verbatim>\<open>new SemVer(version)\<close>; \<open>None\<close> where it throws. The build starts at the first
     \<^verbatim>\<open>+\<close>, the prerelease at the first \<^verbatim>\<open>-\<close> before it.\<close>
  "SemVer v =
     (if MAX_LENGTH < length v then None
      else
        let t = strip_v (trim v);
            front = takeWhile (\<lambda>c. c \<noteq> CHR ''+'') t;
            main = takeWhile (\<lambda>c. c \<noteq> CHR ''-'') front;
            pre = identifiers_after CHR ''-'' front;
            bld = identifiers_after CHR ''+'' t
        in case split_on CHR ''.'' main of
             [a, b, c] \<Rightarrow>
               if is_numeric_identifier a \<and> is_numeric_identifier b \<and> is_numeric_identifier c \<and>
                  (\<forall>i \<in> set pre. is_prerelease_identifier i) \<and>
                  (\<forall>i \<in> set bld. is_build_identifier i) \<and>
                  to_number a \<le> MAX_SAFE_INTEGER \<and> to_number b \<le> MAX_SAFE_INTEGER \<and>
                  to_number c \<le> MAX_SAFE_INTEGER
               then Some \<lparr>major = to_number a, minor = to_number b, patch = to_number c,
                          prerelease = pre, build = bld\<rparr>
               else None
           | _ \<Rightarrow> None)"

definition format :: "semver \<Rightarrow> string" where
  \<comment> \<open>\<^verbatim>\<open>SemVer.format()\<close>: the build is not part of \<^verbatim>\<open>.version\<close>\<close>
  "format sv =
     show_nat (major sv) @ ''.'' @ show_nat (minor sv) @ ''.'' @ show_nat (patch sv) @
     (if prerelease sv \<noteq> [] then ''-'' @ join ''.'' (prerelease sv) else [])"

definition inc_patch :: "jsstr \<Rightarrow> jsstr" where
  \<comment> \<open>\<^verbatim>\<open>inc(version, 'patch')\<close>: a version that is not a prerelease gets the next patch
     number, a prerelease becomes its release; \<^verbatim>\<open>null\<close> when the version does not parse\<close>
  "inc_patch v =
     (case v of
        Str s \<Rightarrow>
          (case SemVer s of
             None \<Rightarrow> Null
           | Some sv \<Rightarrow>
               Str (format (sv\<lparr>patch := (if prerelease sv = [] then patch sv + 1 else patch sv),
                                prerelease := []\<rparr>)))
      | _ \<Rightarrow> Null)"

fun string_less :: "string \<Rightarrow> string \<Rightarrow> bool" where
  \<comment> \<open>\<^verbatim>\<open>a < b\<close> on strings: by code units\<close>
  "string_less [] [] = False"
| "string_less [] (y # ys) = True"
| "string_less (x # xs) [] = False"
| "string_less (x # xs) (y # ys) =
     ((of_char x :: nat) < of_char y \<or> (x = y \<and> string_less xs ys))"

definition compare_numbers :: "nat \<Rightarrow> nat \<Rightarrow> int" where
  "compare_numbers a b = (if a = b then 0 else if a < b then - 1 else 1)"

definition compareIdentifiers :: "string \<Rightarrow> string \<Rightarrow> int" where
  \<comment> \<open>numeric identifiers by value and below the others, the others in ASCII order\<close>
  "compareIdentifiers a b =
     (let anum = (a \<noteq> [] \<and> (\<forall>c \<in> set a. is_digit c));
          bnum = (b \<noteq> [] \<and> (\<forall>c \<in> set b. is_digit c))
      in if anum \<and> bnum then compare_numbers (to_number a) (to_number b)
         else if a = b then 0
         else if anum \<and> \<not> bnum then - 1
         else if bnum \<and> \<not> anum then 1
         else if string_less a b then - 1
         else 1)"

fun compare_identifier_lists :: "string list \<Rightarrow> string list \<Rightarrow> int" where
  \<comment> \<open>the loop of \<^verbatim>\<open>comparePre\<close>\<close>
  "compare_identifier_lists [] [] = 0"
| "compare_identifier_lists (a # as) [] = 1"
| "compare_identifier_lists [] (b # bs) = - 1"
| "compare_identifier_lists (a # as) (b # bs) =
     (if a = b then compare_identifier_lists as bs else compareIdentifiers a b)"

definition comparePre :: "semver \<Rightarrow> semver \<Rightarrow> int" where
  \<comment> \<open>a version without prerelease identifiers is above one with\<close>
  "comparePre x y =
     (if prerelease x \<noteq> [] \<and> prerelease y = [] then - 1
      else if prerelease x = [] \<and> prerelease y \<noteq> [] then 1
      else if prerelease x = [] \<and> prerelease y = [] then 0
      else compare_identifier_lists (prerelease x) (prerelease y))"

definition compareMain :: "semver \<Rightarrow> semver \<Rightarrow> int" where
  "compareMain x y =
     (if compare_numbers (major x) (major y) \<noteq> 0 then compare_numbers (major x) (major y)
      else if compare_numbers (minor x) (minor y) \<noteq> 0 then compare_numbers (minor x) (minor y)
      else compare_numbers (patch x) (patch y))"

definition semver_compare :: "string \<Rightarrow> string \<Rightarrow> int option" where
  \<comment> \<open>\<^verbatim>\<open>compare(a, b)\<close>: \<open>- 1\<close>, \<open>0\<close> or \<open>1\<close> as \<open>a\<close> is below, equal to or above \<open>b\<close> in
     precedence; \<open>None\<close> when one of them is not a version\<close>
  "semver_compare a b =
     (case (SemVer a, SemVer b) of
        (Some x, Some y) \<Rightarrow>
          Some (if compareMain x y \<noteq> 0 then compareMain x y else comparePre x y)
      | _ \<Rightarrow> None)"

subsection \<open>The state of a run and its effects\<close>

datatype error =
    NotFound path
  | Failed string
  | SpawnFailed string "string list" path
  | ExecFailed string
  | VersionCheckFailed
  | ListrError "error list"
  | TypeError string

datatype event =
    Spawn string "string list" path
  | Exec string
  | Prompt string
  | GitCheckout
  | GitRevparse "string list"
  | Rmdir path
  | WriteFile path
  | TaskCompleted string
  | TaskFailed string
  | ConsoleError error

datatype 'a outcome = Ok 'a | Throw error | Exit nat
  \<comment> \<open>a value, an exception, or \<^verbatim>\<open>process.exit(code)\<close>\<close>

record world =
  files :: "path \<rightharpoonup> packageJson"
  committed :: "path \<rightharpoonup> packageJson"
  trace :: "event list"
  projectRoot :: path
  prepareFirestore :: "(path \<rightharpoonup> packageJson) \<Rightarrow> error + (path \<rightharpoonup> packageJson)"
  workspacePackages :: "string list \<Rightarrow> path list"
  installationsDistExists :: bool
  spawnFails :: "string \<Rightarrow> string list \<Rightarrow> path \<Rightarrow> bool"
  execResult :: "string \<Rightarrow> error + string"
  revparseResult :: "error + string"
  checkoutFails :: bool
  answers :: "string \<Rightarrow> bool"

text \<open>
  \<open>files\<close> are the descriptor files of the working tree and \<open>committed\<close> what
  \<^verbatim>\<open>git checkout .\<close> restores; \<open>trace\<close> is the sequence of calls to the outside made so
  far. The other fields are the outside's answers, fixed for a run: the constant
  \<^verbatim>\<open>projectRoot\<close>, what \<^verbatim>\<open>prepareFirestoreForRelease\<close> does to the descriptors, what
  \<^verbatim>\<open>mapWorkspaceToPackages\<close> lists, which child processes exit with an error, what
  \<^verbatim>\<open>git rev-parse --short HEAD\<close> prints, and the operator's answer to each question.
  Console output other than the error the top level logs is not part of the model.
\<close>

type_synonym 'a io = "world \<Rightarrow> 'a outcome \<times> world"

definition return :: "'a \<Rightarrow> 'a io" where
  "return x w = (Ok x, w)"

definition throw :: "error \<Rightarrow> 'a io" where
  "throw e w = (Throw e, w)"

definition process_exit :: "nat \<Rightarrow> 'a io" where
  "process_exit code w = (Exit code, w)"

definition await :: "'a io \<Rightarrow> ('a \<Rightarrow> 'b io) \<Rightarrow> 'b io" where
  \<comment> \<open>\<^verbatim>\<open>const x = await m; k(x)\<close>: an exception or an exit of \<open>m\<close> skips \<open>k\<close>\<close>
  "await m k w =
     (case m w of
        (Ok x, w') \<Rightarrow> k x w'
      | (Throw e, w') \<Rightarrow> (Throw e, w')
      | (Exit c, w') \<Rightarrow> (Exit c, w'))"

definition emit :: "event \<Rightarrow> unit io" where
  "emit e w = (Ok (), w\<lparr>trace := trace w @ [e]\<rparr>)"

definition readPackageJson :: "path \<Rightarrow> packageJson io" where
  \<comment> \<open>Modelled from the spec: \<^verbatim>\<open>readPackageJson\<close> of \<^verbatim>\<open>scripts/utils\<close> is not under src/;
     "read(path) -> PackageDescriptor fails with NotFoundError if no descriptor exists at
     path". It reads the file \<^verbatim>\<open>package.json\<close> of the directory.\<close>
  "readPackageJson p w =
     (case files w (p @ ''/package.json'') of
        None \<Rightarrow> (Throw (NotFound p), w)
      | Some pj \<Rightarrow> (Ok pj, w))"

definition writeFile :: "path \<Rightarrow> packageJson \<Rightarrow> unit io" where
  "writeFile file pj w =
     (Ok (), w\<lparr>files := (files w)(file \<mapsto> pj), trace := trace w @ [WriteFile file]\<rparr>)"

subsection \<open>Calls to the outside\<close>

definition FIREBASE_UMBRELLA_PACKAGE_NAME :: string where
  "FIREBASE_UMBRELLA_PACKAGE_NAME = ''firebase-exp''"

definition spawn :: "string \<Rightarrow> string list \<Rightarrow> path \<Rightarrow> unit io" where
  \<comment> \<open>\<^verbatim>\<open>spawn(cmd, args, { cwd })\<close> of child-process-promise: rejects when the child fails\<close>
  "spawn cmd args cwd w =
     (let w' = w\<lparr>trace := trace w @ [Spawn cmd args cwd]\<rparr>
      in if spawnFails w cmd args cwd then (Throw (SpawnFailed cmd args cwd), w') else (Ok (), w'))"

definition exec :: "string \<Rightarrow> string io" where
  \<comment> \<open>\<^verbatim>\<open>exec(command)\<close>: the standard output of the command, or a rejection\<close>
  "exec cmd w =
     (let w' = w\<lparr>trace := trace w @ [Exec cmd]\<rparr>
      in case execResult w cmd of Inl e \<Rightarrow> (Throw e, w') | Inr out \<Rightarrow> (Ok out, w'))"

definition prompt :: "string \<Rightarrow> bool io" where
  \<comment> \<open>a question of type \<^verbatim>\<open>confirm\<close>, by its name\<close>
  "prompt question w = (Ok (answers w question), w\<lparr>trace := trace w @ [Prompt question]\<rparr>)"

definition git_checkout :: "unit io" where
  \<comment> \<open>\<^verbatim>\<open>git.checkout('.')\<close>: every descriptor is again the committed one\<close>
  "git_checkout w =
     (let w' = w\<lparr>trace := trace w @ [GitCheckout]\<rparr>
      in if checkoutFails w then (Throw (Failed ''git checkout''), w')
         else (Ok (), w'\<lparr>files := committed w\<rparr>))"

definition git_revparse :: "string list \<Rightarrow> string io" where
  "git_revparse args w =
     (let w' = w\<lparr>trace := trace w @ [GitRevparse args]\<rparr>
      in case revparseResult w of Inl e \<Rightarrow> (Throw e, w') | Inr out \<Rightarrow> (Ok out, w'))"

definition prepareFirestoreForRelease :: "unit io" where
  \<comment> \<open>of \<^verbatim>\<open>./prepare-firestore-for-exp-release\<close>, not under src/: it edits descriptors, or fails\<close>
  "prepareFirestoreForRelease w =
     (case prepareFirestore w (files w) of
        Inl e \<Rightarrow> (Throw e, w)
      | Inr fs \<Rightarrow> (Ok (), w\<lparr>files := fs\<rparr>))"

definition mapWorkspaceToPackages :: "string list \<Rightarrow> path list io" where
  \<comment> \<open>of \<^verbatim>\<open>../release/utils/workspace\<close>, not under src/: the package directories of the globs\<close>
  "mapWorkspaceToPackages globs w = (Ok (workspacePackages w globs), w)"

definition getCurrentSha :: "string io" where
  "getCurrentSha = await (git_revparse [''--short'', ''HEAD'']) (\<lambda>out. return (trim out))"

subsection \<open>\<^verbatim>\<open>updatePackageJsons\<close>\<close>

definition rewriteDependencies :: "versions \<Rightarrow> deps \<Rightarrow> deps" where
  \<comment> \<open>the loop over \<^verbatim>\<open>Object.keys(dependencies)\<close> that fills \<^verbatim>\<open>newDependenciesObj\<close>; the
     object is an association list, which is right for every key but \<^verbatim>\<open>__proto__\<close> (an
     assignment to it sets no property of the object), and that is not a package name\<close>
  "rewriteDependencies vs ds =
     fold (\<lambda>(d, range) newDependenciesObj.
        let dNextVersion = Map_get vs d;
            nameWithoutExp = removeExpInPackageName d
        in if \<not> truthy dNextVersion
           then AList.update nameWithoutExp range newDependenciesObj
           else AList.update nameWithoutExp (to_string dNextVersion) newDependenciesObj)
       ds []"

definition or_empty :: "deps option \<Rightarrow> deps" where
  \<comment> \<open>\<^verbatim>\<open>packageJson[depType] || {}\<close>\<close>
  "or_empty ds = (case ds of None \<Rightarrow> [] | Some d \<Rightarrow> d)"

definition updatePackageJson :: "versions \<Rightarrow> options \<Rightarrow> packageJson \<Rightarrow> packageJson" where
  \<comment> \<open>the body of the loop, between reading the descriptor and writing it\<close>
  "updatePackageJson vs opts packageJson0 =
     (let packageJson1 =
            (if updateVersions opts
             then packageJson0\<lparr>version := Map_get vs (name packageJson0)\<rparr>
             else packageJson0);
          packageJson2 =
            (if removeExpInName opts
             then packageJson1
               \<lparr>name := removeExpInPackageName (name packageJson1),
                dependencies := Some (rewriteDependencies vs (or_empty (dependencies packageJson1))),
                peerDependencies :=
                  Some (rewriteDependencies vs (or_empty (peerDependencies packageJson1)))\<rparr>
             else packageJson1)
      in if makePublic opts then packageJson2\<lparr>isPrivate := Some False\<rparr> else packageJson2)"

fun updatePackageJsons :: "path list \<Rightarrow> versions \<Rightarrow> options \<Rightarrow> unit io" where
  "updatePackageJsons [] vs opts = return ()"
| "updatePackageJsons (p # packagePaths) vs opts =
     await (readPackageJson p) (\<lambda>packageJson.
     await (writeFile (p @ ''/package.json'') (updatePackageJson vs opts packageJson)) (\<lambda>_.
     updatePackageJsons packagePaths vs opts))"

definition rewritten :: "path list \<Rightarrow> versions \<Rightarrow> options \<Rightarrow> world \<Rightarrow> world" where
  \<comment> \<open>the world after the loop has read, changed and written the descriptor of every path\<close>
  "rewritten ps vs opts w =
     w\<lparr>files := (\<lambda>f. if f \<in> (\<lambda>q. q @ ''/package.json'') ` set ps
                     then map_option (updatePackageJson vs opts) (files w f) else files w f),
       trace := trace w @ map (\<lambda>q. WriteFile (q @ ''/package.json'')) ps\<rparr>"

subsection \<open>The steps of the release\<close>

definition buildPackages :: "unit io" where
  "buildPackages w0 =
     (let root = projectRoot w0;
          installationsDistDirPath = root @ ''/packages/installations/dist''
      in
       (await (spawn ''yarn''
                 [''lerna'', ''run'', ''--scope'', ''@firebase/app'', ''--scope'',
                  ''@firebase/functions'', ''--scope'', ''@firebase/remote-config'', ''--scope'',
                  ''@firebase/util'', ''--scope'', ''@firebase/component'', ''--scope'',
                  ''@firebase/logger'', ''--scope'', ''@firebase/webchannel-wrapper'', ''build'']
                 root) (\<lambda>_.
        await (spawn ''yarn''
                 [''lerna'', ''run'', ''--scope'', ''@firebase/*-exp'', ''--scope'',
                  ''@firebase/*-compat'', ''build:release'']
                 root) (\<lambda>_.
        await (spawn ''yarn''
                 [''lerna'', ''run'', ''--scope'', ''@firebase/firestore'', ''prebuild''] root) (\<lambda>_.
        await (spawn ''yarn''
                 [''lerna'', ''run'', ''--scope'', ''@firebase/firestore'', ''build:exp:release'']
                 root) (\<lambda>_.
        await (if installationsDistExists w0 then emit (Rmdir installationsDistDirPath)
               else return ()) (\<lambda>_.
        spawn ''yarn'' [''lerna'', ''run'', ''--scope'', ''firebase-exp'', ''build:release''] root))))))
       w0)"

fun planVersions :: "path list \<Rightarrow> versions \<Rightarrow> versions io" where
  \<comment> \<open>the loop of \<^verbatim>\<open>updatePackageNamesAndVersions\<close> that fills the map \<^verbatim>\<open>versions\<close>\<close>
  "planVersions [] vs = return vs"
| "planVersions (p # packagePaths) vs =
     await (readPackageJson p) (\<lambda>pj.
       if name pj = FIREBASE_UMBRELLA_PACKAGE_NAME
       then planVersions packagePaths (Map_set vs (name pj) (inc_patch (version pj)))
       else await getCurrentSha (\<lambda>sha.
              planVersions packagePaths
                (Map_set vs (name pj) (Str (to_string (version pj) @ ''-exp.'' @ sha)))))"

definition nextVersion :: "world \<Rightarrow> packageJson \<Rightarrow> jsstr" where
  \<comment> \<open>what the loop of \<open>planVersions\<close> stores for a descriptor\<close>
  "nextVersion w pj =
     (if name pj = FIREBASE_UMBRELLA_PACKAGE_NAME then inc_patch (version pj)
      else Str (to_string (version pj) @ ''-exp.'' @
                (case revparseResult w of Inr out \<Rightarrow> trim out | Inl _ \<Rightarrow> [])))"

definition descriptor :: "world \<Rightarrow> path \<Rightarrow> packageJson" where
  \<comment> \<open>the descriptor of a package directory that has one\<close>
  "descriptor w p = the (files w (p @ ''/package.json''))"

definition updatePackageNamesAndVersions :: "path list \<Rightarrow> versions io" where
  "updatePackageNamesAndVersions packagePaths =
     await (planVersions packagePaths []) (\<lambda>vs.
     await (updatePackageJsons packagePaths vs
              \<lparr>removeExpInName = True, updateVersions = True, makePublic = True\<rparr>) (\<lambda>_.
     return vs))"

definition publishPackage :: "path \<Rightarrow> bool \<Rightarrow> unit io" where
  "publishPackage packagePath dryRun =
     spawn ''npm''
       ([''publish'', ''--access'', ''public'', ''--tag'', ''exp''] @
        (if dryRun then [''--dry-run''] else []))
       packagePath"

fun taskArray :: "path list \<Rightarrow> bool \<Rightarrow> (string \<times> unit io) list io" where
  \<comment> \<open>\<^verbatim>\<open>Promise.all(packagePaths.map(...))\<close>: a title and a task for every package, in the
     order of the paths (the title without its leading pictograph). When several
     descriptors cannot be read, \<^verbatim>\<open>Promise.all\<close> rejects with the error of the read that
     fails first in time; here that is the one of the first such path.\<close>
  "taskArray [] dryRun = return []"
| "taskArray (pp # pps) dryRun =
     await (readPackageJson pp) (\<lambda>pj.
     await (taskArray pps dryRun) (\<lambda>tasks.
     return ((name pj @ ''@'' @ to_string (version pj), publishPackage pp dryRun) # tasks)))"

text \<open>
  \<^verbatim>\<open>new Listr(taskArray, { concurrent: false, exitOnError: false }).run()\<close>. Listr is a
  dependency, not code of this repository. With these options its \<^verbatim>\<open>run\<close> starts the tasks
  one after the other in the order of the array; a task that rejects is shown as failed,
  its error is kept and the next task starts (\<^verbatim>\<open>exitOnError: false\<close>). When every task has
  run and an error was kept, \<^verbatim>\<open>run\<close> rejects with a \<^verbatim>\<open>ListrError\<close> whose \<^verbatim>\<open>errors\<close> are the
  kept ones; otherwise it resolves.
\<close>

fun Listr_tasks :: "(string \<times> unit io) list \<Rightarrow> error list \<Rightarrow> error list io" where
  "Listr_tasks [] errors = return errors"
| "Listr_tasks ((title, task) # tasks) errors =
     (\<lambda>w. case task w of
        (Ok _, w') \<Rightarrow> Listr_tasks tasks errors (w'\<lparr>trace := trace w' @ [TaskCompleted title]\<rparr>)
      | (Throw e, w') \<Rightarrow>
          Listr_tasks tasks (errors @ [e]) (w'\<lparr>trace := trace w' @ [TaskFailed title]\<rparr>)
      | (Exit c, w') \<Rightarrow> (Exit c, w'))"

definition Listr_run :: "(string \<times> unit io) list \<Rightarrow> unit io" where
  "Listr_run tasks =
     await (Listr_tasks tasks []) (\<lambda>errors.
       if errors \<noteq> [] then throw (ListrError errors) else return ())"

definition publishToNpm :: "path list \<Rightarrow> bool \<Rightarrow> unit io" where
  "publishToNpm packagePaths dryRun = await (taskArray packagePaths dryRun) Listr_run"

definition resetWorkingTreeAndBumpVersions :: "path list \<Rightarrow> versions \<Rightarrow> unit io" where
  "resetWorkingTreeAndBumpVersions packagePaths vs =
     await git_checkout (\<lambda>_.
     updatePackageJsons packagePaths vs
       \<lparr>removeExpInName = False, updateVersions = True, makePublic = False\<rparr>)"

definition commitAndPush :: "versions \<Rightarrow> unit io" where
  \<comment> \<open>the function \<^verbatim>\<open>commitAndPush\<close> of the module\<close>
  "commitAndPush vs =
     await (exec ''git add */package.json yarn.lock'') (\<lambda>_.
     let firebaseExpVersion = Map_get vs FIREBASE_UMBRELLA_PACKAGE_NAME in
     await (exec (''git commit -m '' @ [CHR 0x22] @ ''Publish firebase@exp '' @
                  (if truthy firebaseExpVersion then to_string firebaseExpVersion else []) @
                  [CHR 0x22])) (\<lambda>_.
     await (exec ''git rev-parse --abbrev-ref HEAD'') (\<lambda>out.
     let currentBranch = trim out in
     await (exec (''git push origin '' @ currentBranch @ '' --no-verify -u'')) (\<lambda>_.
     return ()))))"

text \<open>
  The \<^verbatim>\<open>try\<close> block of \<^verbatim>\<open>publishExpPackages\<close>. In the block of \<^verbatim>\<open>if (!dryRun)\<close> the line
  \<^verbatim>\<open>const { commitAndPush } = await prompt([...])\<close> declares a constant of that block: there
  the name \<^verbatim>\<open>commitAndPush\<close> is the operator's answer and no longer the function of the
  module. So \<^verbatim>\<open>if (commitAndPush) { await commitAndPush(versions); }\<close> calls the value
  \<^verbatim>\<open>true\<close>, which throws a \<^verbatim>\<open>TypeError\<close>; the function \<open>commitAndPush\<close> is never called.
\<close>

definition publishExpPackages_try :: "bool \<Rightarrow> unit io" where
  "publishExpPackages_try dryRun w0 =
     (await prepareFirestoreForRelease (\<lambda>_.
      await buildPackages (\<lambda>_.
      await (mapWorkspaceToPackages [projectRoot w0 @ ''/packages-exp/*'']) (\<lambda>paths.
      let packagePaths = paths @ [projectRoot w0 @ ''/packages/firestore''] in
      await (updatePackageNamesAndVersions packagePaths) (\<lambda>vs.
      await (prompt ''versionCheck'') (\<lambda>versionCheck.
      if \<not> versionCheck then throw VersionCheckFailed
      else
      await (publishToNpm packagePaths dryRun) (\<lambda>_.
      let firebaseExpVersion =
            Map_set [] FIREBASE_UMBRELLA_PACKAGE_NAME (Map_get vs FIREBASE_UMBRELLA_PACKAGE_NAME);
          firebaseExpPath = filter (\<lambda>p. sublist FIREBASE_UMBRELLA_PACKAGE_NAME p) packagePaths
      in
      await (prompt ''resetWorkingTree'') (\<lambda>resetWorkingTree.
      await (if resetWorkingTree
             then resetWorkingTreeAndBumpVersions firebaseExpPath firebaseExpVersion
             else process_exit 0) (\<lambda>_.
      if \<not> dryRun
      then await (prompt ''commitAndPush'') (\<lambda>commitAndPush_answer.
             if commitAndPush_answer
             then throw (TypeError ''commitAndPush is not a function'')
             else return ())
      else return ()))))))))
      w0)"

definition publishExpPackages :: "bool \<Rightarrow> unit io" where
  \<comment> \<open>\<^verbatim>\<open>try { ... } catch (err) { console.error(err); process.exit(1); }\<close>\<close>
  "publishExpPackages dryRun w =
     (case publishExpPackages_try dryRun w of
        (Throw err, w') \<Rightarrow> (Exit 1, w'\<lparr>trace := trace w' @ [ConsoleError err]\<rparr>)
      | r \<Rightarrow> r)"

definition exit_code :: "bool \<Rightarrow> world \<Rightarrow> nat" where
  \<comment> \<open>the exit code of the process that runs \<^verbatim>\<open>publishExpPackages(argv)\<close>: the code given to
     \<^verbatim>\<open>process.exit\<close>, and 0 when the process ends because nothing is left to run. The call
     at the end of the module has no handler: an error that left \<^verbatim>\<open>publishExpPackages\<close>
     would be an unhandled rejection, which the Node releases of the script's time (before
     version 15) report with a warning and without an exit code of their own. So only
     \<^verbatim>\<open>process.exit(1)\<close> of the \<^verbatim>\<open>catch\<close> block gives the exit code 1.\<close>
  "exit_code dryRun w =
     (case fst (publishExpPackages dryRun w) of
        Ok _ \<Rightarrow> 0
      | Exit c \<Rightarrow> c
      | Throw _ \<Rightarrow> 0)"

subsection \<open>Notions for the statements about runs\<close>

text \<open>
  The events of a run are compared with these: the events of the steps before the first
  question and of the reset, and the events, errors and arguments of the publication.
  \<open>planning\<close>, \<open>publish_gate\<close>, \<open>reset_gate\<close> and \<open>push_gate\<close> are the \<^verbatim>\<open>try\<close> block of
  \<^verbatim>\<open>publishExpPackages\<close> cut at its three questions; \<open>try_block_gates\<close> below shows that
  together they are that block.
\<close>

definition extends :: "(event \<Rightarrow> bool) \<Rightarrow> world \<Rightarrow> world \<Rightarrow> bool" where
  \<comment> \<open>the second world is the first one with other descriptor files and more events, all in \<open>P\<close>\<close>
  "extends P w w' \<longleftrightarrow>
     (\<exists>fs es. w' = w\<lparr>files := fs, trace := trace w @ es\<rparr> \<and> (\<forall>e \<in> set es. P e))"

definition emits :: "(event \<Rightarrow> bool) \<Rightarrow> 'a io \<Rightarrow> bool" where
  \<comment> \<open>a step that changes descriptor files only, adds events in \<open>P\<close> only, and does not exit\<close>
  "emits P m \<longleftrightarrow> (\<forall>w r w'. m w = (r, w') \<longrightarrow> extends P w w' \<and> (\<forall>c. r \<noteq> Exit c))"

definition planning_event :: "event \<Rightarrow> bool" where
  "planning_event e \<longleftrightarrow>
     (\<exists>args cwd. e = Spawn ''yarn'' args cwd) \<or> (\<exists>d. e = Rmdir d) \<or>
     (\<exists>a. e = GitRevparse a) \<or> (\<exists>f. e = WriteFile f)"

definition reset_event :: "event \<Rightarrow> bool" where
  "reset_event e \<longleftrightarrow> e = GitCheckout \<or> (\<exists>f. e = WriteFile f)"

definition publish_args :: "bool \<Rightarrow> string list" where
  "publish_args dryRun =
     [''publish'', ''--access'', ''public'', ''--tag'', ''exp''] @
     (if dryRun then [''--dry-run''] else [])"

definition publish_fails :: "bool \<Rightarrow> world \<Rightarrow> path \<Rightarrow> bool" where
  "publish_fails dryRun w p \<longleftrightarrow> spawnFails w ''npm'' (publish_args dryRun) p"

definition title :: "world \<Rightarrow> path \<Rightarrow> string" where
  "title w p = name (descriptor w p) @ ''@'' @ to_string (version (descriptor w p))"

definition publish_events :: "bool \<Rightarrow> world \<Rightarrow> path list \<Rightarrow> event list" where
  \<comment> \<open>for every package in turn: the call of \<^verbatim>\<open>npm publish\<close>, then how its task ended\<close>
  "publish_events dryRun w ps =
     concat (map (\<lambda>p. [Spawn ''npm'' (publish_args dryRun) p,
                        if publish_fails dryRun w p then TaskFailed (title w p)
                        else TaskCompleted (title w p)]) ps)"

definition publish_errors :: "bool \<Rightarrow> world \<Rightarrow> path list \<Rightarrow> error list" where
  "publish_errors dryRun w ps =
     map (\<lambda>p. SpawnFailed ''npm'' (publish_args dryRun) p) (filter (publish_fails dryRun w) ps)"

definition is_spawn :: "event \<Rightarrow> bool" where
  "is_spawn e = (case e of Spawn cmd args cwd \<Rightarrow> True | _ \<Rightarrow> False)"

definition working_set :: "world \<Rightarrow> path list" where
  \<comment> \<open>the working set of \<^verbatim>\<open>publishExpPackages\<close>\<close>
  "working_set w =
     workspacePackages w [projectRoot w @ ''/packages-exp/*''] @
     [projectRoot w @ ''/packages/firestore'']"

definition planning :: "world \<Rightarrow> (path list \<times> versions) io" where
  \<comment> \<open>the steps of \<^verbatim>\<open>publishExpPackages\<close> before the first question\<close>
  "planning w0 =
     await prepareFirestoreForRelease (\<lambda>_.
     await buildPackages (\<lambda>_.
     await (mapWorkspaceToPackages [projectRoot w0 @ ''/packages-exp/*'']) (\<lambda>paths.
     await (updatePackageNamesAndVersions (paths @ [projectRoot w0 @ ''/packages/firestore''])) (\<lambda>vs.
     return (paths @ [projectRoot w0 @ ''/packages/firestore''], vs)))))"

definition push_gate :: "bool \<Rightarrow> unit io" where
  "push_gate dryRun =
     (if \<not> dryRun
      then await (prompt ''commitAndPush'') (\<lambda>commitAndPush_answer.
             if commitAndPush_answer
             then throw (TypeError ''commitAndPush is not a function'')
             else return ())
      else return ())"

definition reset_gate :: "bool \<Rightarrow> path list \<Rightarrow> versions \<Rightarrow> unit io" where
  "reset_gate dryRun pp vs =
     await (prompt ''resetWorkingTree'') (\<lambda>resetWorkingTree.
     await (if resetWorkingTree
            then resetWorkingTreeAndBumpVersions
                   (filter (\<lambda>p. sublist FIREBASE_UMBRELLA_PACKAGE_NAME p) pp)
                   (Map_set [] FIREBASE_UMBRELLA_PACKAGE_NAME
                      (Map_get vs FIREBASE_UMBRELLA_PACKAGE_NAME))
            else process_exit 0) (\<lambda>_.
     push_gate dryRun))"

definition publish_gate :: "bool \<Rightarrow> path list \<Rightarrow> versions \<Rightarrow> unit io" where
  "publish_gate dryRun pp vs =
     await (prompt ''versionCheck'') (\<lambda>versionCheck.
     if \<not> versionCheck then throw VersionCheckFailed
     else await (publishToNpm pp dryRun) (\<lambda>_. reset_gate dryRun pp vs))"

subsection \<open>A working set\<close>

text \<open>
  The working set of the specification's scenario, for a scope \<open>scope\<close>: the umbrella
  package at 1.2.3, a package \<open>scope/a-exp\<close> at 0.5.0 that depends on \<open>scope/b-exp\<close> (range
  \<^verbatim>\<open>^0.5.0\<close>), and \<open>scope/b-exp\<close> at 0.5.0. The repository also holds \<^verbatim>\<open>packages/firestore\<close>,
  and the revision is \<^verbatim>\<open>abcdef\<close>. Only the chosen publications fail.
\<close>

definition scenario_files :: "string \<Rightarrow> path \<rightharpoonup> packageJson" where
  "scenario_files scope =
     [''/repo/packages-exp/firebase-exp/package.json'' \<mapsto>
        \<lparr>name = ''firebase-exp'', version = Str ''1.2.3'', isPrivate = Some True,
         dependencies = Some [(scope @ ''/a-exp'', ''0.5.0'')], peerDependencies = None,
         devDependencies = Some [(''typescript'', ''4.2.2'')]\<rparr>,
      ''/repo/packages-exp/a-exp/package.json'' \<mapsto>
        \<lparr>name = scope @ ''/a-exp'', version = Str ''0.5.0'', isPrivate = Some True,
         dependencies = Some [(scope @ ''/b-exp'', ''^0.5.0''), (''tslib'', ''^2.1.0'')],
         peerDependencies = None,
         devDependencies = Some [(scope @ ''/b-exp'', ''0.5.0'')]\<rparr>,
      ''/repo/packages-exp/b-exp/package.json'' \<mapsto>
        \<lparr>name = scope @ ''/b-exp'', version = Str ''0.5.0'', isPrivate = Some True,
         dependencies = None, peerDependencies = None, devDependencies = None\<rparr>,
      ''/repo/packages/firestore/package.json'' \<mapsto>
        \<lparr>name = ''@firebase/firestore'', version = Str ''2.1.6'', isPrivate = None,
         dependencies = None, peerDependencies = None, devDependencies = None\<rparr>]"

definition scenario_paths :: "path list" where
  "scenario_paths =
     [''/repo/packages-exp/firebase-exp'', ''/repo/packages-exp/a-exp'',
      ''/repo/packages-exp/b-exp'']"

definition scenario :: "string \<Rightarrow> string list \<Rightarrow> path list \<Rightarrow> world" where
  \<comment> \<open>\<open>declined\<close>: the questions that the operator answers with no;
     \<open>failing\<close>: the package directories whose \<^verbatim>\<open>npm publish\<close> fails\<close>
  "scenario scope declined failing =
     \<lparr>files = scenario_files scope, committed = scenario_files scope, trace = [],
      projectRoot = ''/repo'', prepareFirestore = Inr,
      workspacePackages = (\<lambda>globs. scenario_paths),
      installationsDistExists = False,
      spawnFails = (\<lambda>cmd args cwd. cmd = ''npm'' \<and> cwd \<in> set failing),
      execResult = (\<lambda>cmd. Inr []), revparseResult = Inr (''abcdef'' @ [CHR 0x0A]),
      checkoutFails = False, answers = (\<lambda>question. question \<notin> set declined)\<rparr>"

text \<open>
  A working set of one package whose version is a parameter, with the same revision.
\<close>

definition versioned_package :: "string \<Rightarrow> world" where
  \<comment> \<open>a working set of one package, \<^verbatim>\<open>@x/c-exp\<close>, at the given version\<close>
  "versioned_package v =
     (scenario ''@x'' [] [])
       \<lparr>files := [''/repo/packages-exp/c-exp/package.json'' \<mapsto>
          \<lparr>name = ''@x/c-exp'', version = Str v, isPrivate = Some True,
           dependencies = None, peerDependencies = None, devDependencies = None\<rparr>]\<rparr>"

section \<open>Properties\<close>

subsection \<open>Facts about the matcher\<close>

lemma star_dot_complete:
  "(\<forall>c \<in> set a. dot c) \<Longrightarrow> k (taken @ a) rest = Some r \<Longrightarrow> star_dot k taken (a @ rest) \<noteq> None"
proof (induction a arbitrary: taken)
  case Nil
  then show ?case by (cases rest) (auto split: option.splits)
next
  case (Cons y ys)
  then have "star_dot k (taken @ [y]) (ys @ rest) \<noteq> None"
    by simp
  with Cons.prems show ?case by (auto split: option.splits)
qed

lemma star_dot_sound:
  "star_dot k taken s = Some r \<Longrightarrow>
     \<exists>a rest. s = a @ rest \<and> (\<forall>c \<in> set a. dot c) \<and> k (taken @ a) rest = Some r \<and>
       (\<forall>a' rest' r'. s = a' @ rest' \<and> length a < length a' \<and> (\<forall>c \<in> set a'. dot c)
          \<longrightarrow> k (taken @ a') rest' = None)"
proof (induction s arbitrary: taken)
  case Nil
  then show ?case by simp
next
  case (Cons c cs)
  show ?case
  proof (cases "dot c \<and> star_dot k (taken @ [c]) cs \<noteq> None")
    case True
    then have "star_dot k (taken @ [c]) cs = Some r"
      using Cons.prems by (auto split: option.splits)
    from Cons.IH [OF this] obtain a rest where
      a: "cs = a @ rest" "\<forall>x \<in> set a. dot x" "k ((taken @ [c]) @ a) rest = Some r"
        "\<forall>a' rest'. cs = a' @ rest' \<and> length a < length a' \<and> (\<forall>x \<in> set a'. dot x)
           \<longrightarrow> k ((taken @ [c]) @ a') rest' = None"
      by blast
    have longer: "k (taken @ a') rest' = None"
      if h: "c # cs = a' @ rest'" "length (c # a) < length a'" "\<forall>x \<in> set a'. dot x"
      for a' rest'
    proof -
      from h obtain a'' where a'': "a' = c # a''"
        by (cases a') auto
      with h have "cs = a'' @ rest'" "length a < length a''" "\<forall>x \<in> set a''. dot x"
        by auto
      with a(4) have "k ((taken @ [c]) @ a'') rest' = None"
        by blast
      with a'' show ?thesis by simp
    qed
    have "c # cs = (c # a) @ rest \<and> (\<forall>x \<in> set (c # a). dot x) \<and>
        k (taken @ (c # a)) rest = Some r"
      using a True by simp
    with longer show ?thesis by blast
  next
    case False
    then have here: "k taken (c # cs) = Some r"
      using Cons.prems by (auto split: option.splits if_splits)
    have longer: "k (taken @ a') rest' = None"
      if h: "c # cs = a' @ rest'" "length ([]::string) < length a'" "\<forall>x \<in> set a'. dot x"
      for a' rest'
    proof -
      from h obtain a'' where a'': "a' = c # a''"
        by (cases a') auto
      with h have dc: "dot c" and cs: "cs = a'' @ rest'" and da: "\<forall>x \<in> set a''. dot x"
        by auto
      with False have none: "star_dot k (taken @ [c]) cs = None"
        by simp
      show ?thesis
      proof (rule ccontr)
        assume "k (taken @ a') rest' \<noteq> None"
        then obtain r' where "k ((taken @ [c]) @ a'') rest' = Some r'"
          using a'' by auto
        from star_dot_complete [of a'' k "taken @ [c]" rest' r'] da this show False
          using none cs by simp
      qed
    qed
    have "c # cs = [] @ (c # cs) \<and> (\<forall>x \<in> set ([]::string). dot x) \<and>
        k (taken @ []) (c # cs) = Some r"
      using here by simp
    with longer show ?thesis by blast
  qed
qed

lemma literal_Some: "literal p k s = Some r \<longleftrightarrow> (\<exists>rest. s = p @ rest \<and> k rest = Some r)"
proof -
  have "take (length p) s = p \<longleftrightarrow> (\<exists>rest. s = p @ rest)"
    by (metis append_eq_conv_conj append_take_drop_id)
  then show ?thesis
    unfolding literal_def by (auto simp: append_eq_conv_conj)
qed

lemma end_of_input_Some: "end_of_input x s = Some r \<longleftrightarrow> s = [] \<and> r = x"
  by (auto simp: end_of_input_def)

lemma all_dot_tail: "(\<forall>c \<in> set y. dot c) \<Longrightarrow> star_dot (\<lambda>c s5. end_of_input (f c) s5) [] y \<noteq> None"
  using star_dot_complete [of y "\<lambda>c s5. end_of_input (f c) s5" "[]" "[]" "f y"]
  by (simp add: end_of_input_def)

lemma regex_exec_sound:
  assumes "regex_exec n = Some (c1, c2)"
  shows "\<exists>a b. c1 = a @ ''firebase'' @ b \<and> n = c1 @ ''-exp'' @ c2 \<and>
           (\<forall>c \<in> set n. dot c) \<and> \<not> sublist ''-exp'' c2"
proof -
  let ?k4 = "\<lambda>a b. (\<lambda>c s5. end_of_input (a @ ''firebase'' @ b, c) s5)"
  let ?k3 = "\<lambda>a. (\<lambda>b s3. literal ''-exp'' (\<lambda>s4. star_dot (?k4 a b) [] s4) s3)"
  let ?k1 = "\<lambda>a s1. literal ''firebase'' (\<lambda>s2. star_dot (?k3 a) [] s2) s1"
  from assms have "star_dot ?k1 [] n = Some (c1, c2)"
    by (simp add: regex_exec_def)
  from star_dot_sound [OF this] obtain a s1 where
    1: "n = a @ s1" "\<forall>c \<in> set a. dot c" "?k1 a s1 = Some (c1, c2)"
    by auto
  from 1(3) obtain s2 where
    2: "s1 = ''firebase'' @ s2" "star_dot (?k3 a) [] s2 = Some (c1, c2)"
    unfolding literal_Some by blast
  from star_dot_sound [OF 2(2)] obtain b s3 where
    3: "s2 = b @ s3" "\<forall>c \<in> set b. dot c" "?k3 a b s3 = Some (c1, c2)"
      "\<forall>b' rest'. s2 = b' @ rest' \<and> length b < length b' \<and> (\<forall>c \<in> set b'. dot c)
          \<longrightarrow> ?k3 a b' rest' = None"
    by auto
  from 3(3) obtain s4 where
    4: "s3 = ''-exp'' @ s4" "star_dot (?k4 a b) [] s4 = Some (c1, c2)"
    unfolding literal_Some by blast
  from star_dot_sound [OF 4(2)] obtain c s5 where
    5: "s4 = c @ s5" "\<forall>x \<in> set c. dot x" "?k4 a b c s5 = Some (c1, c2)"
    by auto
  from 5(3) have 6: "s5 = []" "c1 = a @ ''firebase'' @ b" "c2 = c"
    by (auto simp: end_of_input_Some)
  have name: "n = c1 @ ''-exp'' @ c2"
    using 1(1) 2(1) 3(1) 4(1) 5(1) 6 by simp
  have "\<forall>x \<in> set ''firebase-exp''. dot x"
    by (simp add: dot_def)
  then have dots: "\<forall>x \<in> set n. dot x"
    using 1(2) 3(2) 5(2) unfolding name 6(2,3) by auto
  have last: "\<not> sublist ''-exp'' c2"
  proof
    assume "sublist ''-exp'' c2"
    then obtain x y where xy: "c2 = x @ ''-exp'' @ y"
      by (auto simp: sublist_def)
    define b' where "b' = b @ ''-exp'' @ x"
    have split: "s2 = b' @ (''-exp'' @ y)"
      using 3(1) 4(1) 5(1) 6(1,3) xy by (simp add: b'_def)
    have longer: "length b < length b'"
      by (simp add: b'_def)
    have dx: "\<forall>c \<in> set x. dot c" and dy: "\<forall>c \<in> set y. dot c"
      using 5(2) 6(3) xy by auto
    have db': "\<forall>c \<in> set b'. dot c"
      using 3(2) dx by (auto simp: b'_def dot_def)
    from 3(4) split longer db' have "?k3 a b' (''-exp'' @ y) = None"
      by blast
    then have "star_dot (?k4 a b') [] y = None"
      by (simp add: literal_def)
    with all_dot_tail [OF dy, of "\<lambda>c. (a @ ''firebase'' @ b', c)"] show False
      by simp
  qed
  from 6 name dots last show ?thesis by blast
qed



text \<open>
  C8. A package name that does not contain \<^verbatim>\<open>-exp\<close> is returned as it is.
\<close>

theorem removeExp_identity_without_marker:
  "\<not> sublist ''-exp'' n \<Longrightarrow> removeExpInPackageName n = n"
proof -
  assume no: "\<not> sublist ''-exp'' n"
  have "regex_exec n = None"
  proof (cases "regex_exec n")
    case None
    then show ?thesis .
  next
    case (Some r)
    obtain c1 c2 where "r = (c1, c2)" by (cases r)
    with Some regex_exec_sound [of n c1 c2] have "n = c1 @ ''-exp'' @ c2"
      by blast
    then have "sublist ''-exp'' n"
      unfolding sublist_def by blast
    with no show ?thesis by simp
  qed
  then show ?thesis
    by (simp add: removeExpInPackageName_def)
qed

theorem removeExp_identity_without_marker_witness:
  "\<not> sublist ''-exp'' ''@firebase/util'' \<and>
   removeExpInPackageName ''@firebase/util'' = ''@firebase/util''"
proof -
  have h: "\<not> sublist ''-exp'' ''@firebase/util''"
    by code_simp
  from h removeExp_identity_without_marker [OF h] show ?thesis
    by simp
qed




subsection \<open>Facts about \<^verbatim>\<open>updatePackageJsons\<close>\<close>

lemma devDependencies_updatePackageJson:
  "devDependencies (updatePackageJson vs opts pj) = devDependencies pj"
  by (simp add: updatePackageJson_def Let_def)

lemma updatePackageJsons_devDependencies:
  "updatePackageJsons ps vs opts w = (r, w') \<Longrightarrow> files w f = Some pj \<Longrightarrow>
     \<exists>pj'. files w' f = Some pj' \<and> devDependencies pj' = devDependencies pj"
proof (induction ps arbitrary: w pj)
  case Nil
  then show ?case by (simp add: return_def)
next
  case (Cons p ps)
  show ?case
  proof (cases "files w (p @ ''/package.json'')")
    case None
    with Cons.prems show ?thesis
      by (simp add: readPackageJson_def await_def)
  next
    case (Some q)
    let ?w1 = "w\<lparr>files := (files w)(p @ ''/package.json'' \<mapsto> updatePackageJson vs opts q),
                 trace := trace w @ [WriteFile (p @ ''/package.json'')]\<rparr>"
    from Some Cons.prems(1) have run: "updatePackageJsons ps vs opts ?w1 = (r, w')"
      by (simp add: readPackageJson_def writeFile_def await_def)
    have "\<exists>pj1. files ?w1 f = Some pj1 \<and> devDependencies pj1 = devDependencies pj"
      using Some Cons.prems(2) by (auto simp: devDependencies_updatePackageJson)
    then obtain pj1 where pj1: "files ?w1 f = Some pj1" "devDependencies pj1 = devDependencies pj"
      by blast
    from Cons.IH [OF run pj1(1)] pj1(2) show ?thesis by simp
  qed
qed

lemma updatePackageJsons_distinct:
  "distinct ps \<Longrightarrow> (\<forall>q \<in> set ps. files w (q @ ''/package.json'') \<noteq> None) \<Longrightarrow>
     updatePackageJsons ps vs opts w = (Ok (), rewritten ps vs opts w)"
proof (induction ps arbitrary: w)
  case Nil
  then show ?case by (simp add: return_def rewritten_def)
next
  case (Cons p ps)
  from Cons.prems obtain q where q: "files w (p @ ''/package.json'') = Some q"
    by auto
  let ?w1 = "w\<lparr>files := (files w)(p @ ''/package.json'' \<mapsto> updatePackageJson vs opts q),
               trace := trace w @ [WriteFile (p @ ''/package.json'')]\<rparr>"
  have step: "updatePackageJsons (p # ps) vs opts w = updatePackageJsons ps vs opts ?w1"
    using q by (simp add: readPackageJson_def writeFile_def await_def)
  have "\<forall>q \<in> set ps. files ?w1 (q @ ''/package.json'') \<noteq> None"
    using Cons.prems by auto
  with Cons.IH [of ?w1] Cons.prems(1)
  have "updatePackageJsons ps vs opts ?w1 = (Ok (), rewritten ps vs opts ?w1)"
    by simp
  moreover have "rewritten ps vs opts ?w1 = rewritten (p # ps) vs opts w"
  proof -
    have "p @ ''/package.json'' \<notin> (\<lambda>q. q @ ''/package.json'') ` set ps"
      using Cons.prems(1) by auto
    then have "(\<lambda>f. if f \<in> (\<lambda>q. q @ ''/package.json'') ` set ps
                 then map_option (updatePackageJson vs opts) (files ?w1 f) else files ?w1 f) =
          (\<lambda>f. if f \<in> (\<lambda>q. q @ ''/package.json'') ` set (p # ps)
                 then map_option (updatePackageJson vs opts) (files w f) else files w f)"
      using q by (intro ext) auto
    then show ?thesis
      by (simp add: rewritten_def)
  qed
  ultimately show ?case using step by simp
qed

subsection \<open>Facts about the version plan\<close>

lemma Map_get_set: "Map_get (Map_set m k v) k' = (if k' = k then v else Map_get m k')"
  by (simp add: Map_get_def Map_set_def update_conv')

lemma keys_Map_set: "fst ` set (Map_set m k v) = insert k (fst ` set m)"
  by (simp add: Map_set_def dom_update)

lemma distinct_Map_set: "distinct (map fst m) \<Longrightarrow> distinct (map fst (Map_set m k v))"
  by (simp add: Map_set_def distinct_update)

lemma keys_fold_Map_set:
  "fst ` set (fold (\<lambda>p acc. Map_set acc (k p) (v p)) ps m) = fst ` set m \<union> k ` set ps"
  by (induction ps arbitrary: m) (auto simp: keys_Map_set)

lemma distinct_fold_Map_set:
  "distinct (map fst m) \<Longrightarrow> distinct (map fst (fold (\<lambda>p acc. Map_set acc (k p) (v p)) ps m))"
  by (induction ps arbitrary: m) (auto simp: distinct_Map_set)

lemma Map_get_fold_keeps:
  "Map_get m key = x \<Longrightarrow> (\<forall>q \<in> set ps. k q = key \<longrightarrow> v q = x) \<Longrightarrow>
     Map_get (fold (\<lambda>p acc. Map_set acc (k p) (v p)) ps m) key = x"
  by (induction ps arbitrary: m) (auto simp: Map_get_set)

lemma Map_get_fold_Map_set:
  assumes "p \<in> set ps" and "\<forall>q \<in> set ps. k q = k p \<longrightarrow> v q = v p"
  shows "Map_get (fold (\<lambda>p acc. Map_set acc (k p) (v p)) ps m) (k p) = v p"
proof -
  from assms(1) obtain xs ys where ps: "ps = xs @ p # ys"
    by (auto simp: in_set_conv_decomp)
  have "Map_get (Map_set (fold (\<lambda>p acc. Map_set acc (k p) (v p)) xs m) (k p) (v p)) (k p) = v p"
    by (simp add: Map_get_set)
  moreover have "\<forall>q \<in> set ys. k q = k p \<longrightarrow> v q = v p"
    using assms(2) ps by simp
  ultimately show ?thesis
    unfolding ps by (simp add: Map_get_fold_keeps)
qed

lemma getCurrentSha_run:
  "getCurrentSha w =
     ((case revparseResult w of Inl e \<Rightarrow> Throw e | Inr out \<Rightarrow> Ok (trim out)),
      w\<lparr>trace := trace w @ [GitRevparse [''--short'', ''HEAD'']]\<rparr>)"
  by (simp add: getCurrentSha_def git_revparse_def await_def return_def Let_def split: sum.splits)

lemma descriptor_trace [simp]: "descriptor (w\<lparr>trace := t\<rparr>) p = descriptor w p"
  by (simp add: descriptor_def)

lemma nextVersion_trace [simp]: "nextVersion (w\<lparr>trace := t\<rparr>) pj = nextVersion w pj"
  by (simp add: nextVersion_def)

lemma planVersions_Ok:
  "planVersions ps vs w = (Ok vs', w') \<Longrightarrow>
     (\<forall>p \<in> set ps. files w (p @ ''/package.json'') \<noteq> None) \<and>
     vs' = fold (\<lambda>p acc. Map_set acc (name (descriptor w p)) (nextVersion w (descriptor w p))) ps vs \<and>
     (\<exists>es. w' = w\<lparr>trace := trace w @ es\<rparr> \<and> (\<forall>e \<in> set es. \<exists>a. e = GitRevparse a))"
proof (induction ps arbitrary: vs w)
  case Nil
  then show ?case
    by (auto simp: return_def intro: exI [of _ "[]"])
next
  case (Cons p ps)
  from Cons.prems obtain pj where pj: "files w (p @ ''/package.json'') = Some pj"
    by (cases "files w (p @ ''/package.json'')") (auto simp: readPackageJson_def await_def)
  then have d: "descriptor w p = pj"
    by (simp add: descriptor_def)
  show ?case
  proof (cases "name pj = FIREBASE_UMBRELLA_PACKAGE_NAME")
    case True
    with pj Cons.prems
    have "planVersions ps (Map_set vs (name pj) (inc_patch (version pj))) w = (Ok vs', w')"
      by (simp add: readPackageJson_def await_def)
    from Cons.IH [OF this] pj d True show ?thesis
      by (simp add: nextVersion_def)
  next
    case False
    let ?w1 = "w\<lparr>trace := trace w @ [GitRevparse [''--short'', ''HEAD'']]\<rparr>"
    from pj False Cons.prems obtain out where out: "revparseResult w = Inr out"
      by (cases "revparseResult w")
        (auto simp: readPackageJson_def await_def getCurrentSha_run)
    with pj False Cons.prems
    have run: "planVersions ps
        (Map_set vs (name pj) (Str (to_string (version pj) @ ''-exp.'' @ trim out))) ?w1 = (Ok vs', w')"
      by (simp add: readPackageJson_def await_def getCurrentSha_run)
    have nv: "nextVersion w pj = Str (to_string (version pj) @ ''-exp.'' @ trim out)"
      using False out by (simp add: nextVersion_def)
    from Cons.IH [OF run] obtain es where
      es: "\<forall>p \<in> set ps. files w (p @ ''/package.json'') \<noteq> None"
        "vs' = fold (\<lambda>p acc. Map_set acc (name (descriptor w p)) (nextVersion w (descriptor w p))) ps
                 (Map_set vs (name pj) (Str (to_string (version pj) @ ''-exp.'' @ trim out)))"
        "w' = ?w1\<lparr>trace := trace ?w1 @ es\<rparr>" "\<forall>e \<in> set es. \<exists>a. e = GitRevparse a"
      by auto
    have "w' = w\<lparr>trace := trace w @ (GitRevparse [''--short'', ''HEAD''] # es)\<rparr>"
      using es(3) by simp
    moreover have "\<forall>e \<in> set (GitRevparse [''--short'', ''HEAD''] # es). \<exists>a. e = GitRevparse a"
      using es(4) by simp
    ultimately have "\<exists>es. w' = w\<lparr>trace := trace w @ es\<rparr> \<and> (\<forall>e \<in> set es. \<exists>a. e = GitRevparse a)"
      by blast
    with es(1,2) pj d nv show ?thesis
      by simp
  qed
qed

lemma updatePackageNamesAndVersions_Ok:
  assumes "updatePackageNamesAndVersions ps w = (Ok vs, w')"
  shows "(\<forall>p \<in> set ps. files w (p @ ''/package.json'') \<noteq> None) \<and>
     vs = fold (\<lambda>p acc. Map_set acc (name (descriptor w p)) (nextVersion w (descriptor w p))) ps []"
proof -
  obtain r1 w1 where 1: "planVersions ps [] w = (r1, w1)"
    by (cases "planVersions ps [] w")
  show ?thesis
  proof (cases r1)
    case (Ok vs1)
    with 1 assms have "vs1 = vs"
      unfolding updatePackageNamesAndVersions_def
      by (auto simp: await_def return_def split: prod.splits outcome.splits)
    with Ok 1 planVersions_Ok [of ps "[]" w vs w1] show ?thesis
      by simp
  next
    case (Throw e)
    with 1 assms show ?thesis
      by (simp add: updatePackageNamesAndVersions_def await_def)
  next
    case (Exit c)
    with 1 assms show ?thesis
      by (simp add: updatePackageNamesAndVersions_def await_def)
  qed
qed

subsection \<open>Facts about versions\<close>

lemma split_on_not_Nil [simp]: "split_on sep s \<noteq> []"
  by (induction s) auto

lemma split_on_no_sep: "sep \<notin> set s \<Longrightarrow> split_on sep s = [s]"
  by (induction s) auto

lemma identifiers_after_Nil:
  "identifiers_after sep s = [] \<longleftrightarrow> sep \<notin> set s"
  by (auto simp: identifiers_after_def Let_def dropWhile_eq_Nil_conv)

lemma letter_dash_number_not_special:
  "is_letter_dash_number c \<Longrightarrow>
     \<not> is_white_space c \<and> c \<noteq> CHR ''+'' \<and> c \<noteq> CHR ''.''"
  by (auto simp: is_letter_dash_number_def is_white_space_def)

lemma trim_self:
  assumes "trim s = s" and "s \<noteq> []"
  shows "\<not> is_white_space (hd s) \<and> \<not> is_white_space (last s)"
proof -
  let ?d = "dropWhile is_white_space s"
  have "length (trim s) \<le> length ?d"
    unfolding trim_def by (metis length_dropWhile_le length_rev)
  with assms(1) have "length s \<le> length ?d"
    by simp
  moreover have "length ?d \<le> length s"
    by (rule length_dropWhile_le)
  ultimately have "length ?d = length s"
    by simp
  then have d: "?d = s"
    by (metis append_eq_append_conv append_self_conv2 takeWhile_dropWhile_id)
  then have 1: "\<not> is_white_space (hd s)"
    using assms(2) by (metis hd_dropWhile)
  from assms(1) d have "rev (dropWhile is_white_space (rev s)) = s"
    by (simp add: trim_def)
  then have "dropWhile is_white_space (rev s) = rev s"
    by (metis rev_rev_ident)
  then have "\<not> is_white_space (hd (rev s))"
    using assms(2) by (metis hd_dropWhile rev_is_Nil_conv)
  with assms(2) 1 show ?thesis
    by (simp add: hd_rev)
qed

lemma trim_append_identifier:
  assumes "trim s = s" and "s \<noteq> []" and "x \<noteq> []" and "\<not> is_white_space (last x)"
  shows "trim (s @ x) = s @ x"
proof -
  from trim_self [OF assms(1,2)] have h: "\<not> is_white_space (hd s)"
    by simp
  obtain c r where s: "s = c # r"
    using assms(2) by (cases s) auto
  with h have 1: "dropWhile is_white_space (s @ x) = s @ x"
    by simp
  obtain x' l where x: "x = x' @ [l]"
    using assms(3) by (cases x rule: rev_cases) auto
  with assms(4) have "\<not> is_white_space l"
    by simp
  then have "dropWhile is_white_space (rev (s @ x)) = rev (s @ x)"
    unfolding x by simp
  with 1 show ?thesis
    by (simp add: trim_def)
qed

lemma strip_v_append: "t \<noteq> [] \<Longrightarrow> strip_v (t @ x) = strip_v t @ x"
  by (cases t) (auto simp: strip_v_def)

lemma SemVer_exp_suffix:
  assumes sv: "SemVer cur = Some sv" and stable: "prerelease sv = []" "build sv = []"
    and trimmed: "trim cur = cur"
    and sha: "is_prerelease_identifier sha"
    and len: "length (cur @ ''-exp.'' @ sha) \<le> MAX_LENGTH"
  shows "SemVer (cur @ ''-exp.'' @ sha) = Some (sv\<lparr>prerelease := [''exp'', sha]\<rparr>)"
proof -
  let ?sfx = "''-exp.'' @ sha"
  let ?t = "strip_v (trim cur)"
  have sha_chars: "\<forall>c \<in> set sha. is_letter_dash_number c" and sha_ne: "sha \<noteq> []"
    using sha by (auto simp: is_prerelease_identifier_def)
  have cur_ne: "cur \<noteq> []"
  proof
    assume "cur = []"
    then have "SemVer cur = None"
      by (simp add: SemVer_def trim_def strip_v_def identifiers_after_def)
    with sv show False by simp
  qed
  have sfx_last: "\<not> is_white_space (last ?sfx)"
    using sha_ne sha_chars letter_dash_number_not_special [of "last sha"] by simp
  have trim': "trim (cur @ ?sfx) = cur @ ?sfx"
    by (rule trim_append_identifier [OF trimmed cur_ne _ sfx_last]) simp
  have t': "strip_v (trim (cur @ ?sfx)) = ?t @ ?sfx"
    using trim' trimmed cur_ne by (simp add: strip_v_append)
  have len_cur: "\<not> MAX_LENGTH < length cur"
    using len by simp
  from sv len_cur obtain a b c where
    main: "split_on CHR ''.'' (takeWhile (\<lambda>c. c \<noteq> CHR ''-'') (takeWhile (\<lambda>c. c \<noteq> CHR ''+'') ?t))
           = [a, b, c]"
    and ok: "is_numeric_identifier a \<and> is_numeric_identifier b \<and> is_numeric_identifier c \<and>
       to_number a \<le> MAX_SAFE_INTEGER \<and> to_number b \<le> MAX_SAFE_INTEGER \<and>
       to_number c \<le> MAX_SAFE_INTEGER"
    and sv_eq: "sv = \<lparr>major = to_number a, minor = to_number b, patch = to_number c,
         prerelease = identifiers_after CHR ''-'' (takeWhile (\<lambda>c. c \<noteq> CHR ''+'') ?t),
         build = identifiers_after CHR ''+'' ?t\<rparr>"
    by (auto simp: SemVer_def Let_def split: list.splits if_splits)
  from stable(2) sv_eq have no_plus: "CHR ''+'' \<notin> set ?t"
    by (simp add: identifiers_after_Nil)
  then have front: "takeWhile (\<lambda>c. c \<noteq> CHR ''+'') ?t = ?t"
    by (auto simp: takeWhile_eq_all_conv)
  from stable(1) sv_eq front have no_dash: "CHR ''-'' \<notin> set ?t"
    by (simp add: identifiers_after_Nil)
  have sfx_no_plus: "CHR ''+'' \<notin> set ?sfx"
    using sha_chars letter_dash_number_not_special by auto
  have sha_no_dot: "CHR ''.'' \<notin> set sha"
    using sha_chars letter_dash_number_not_special by auto
  have front': "takeWhile (\<lambda>c. c \<noteq> CHR ''+'') (?t @ ?sfx) = ?t @ ?sfx"
    using no_plus sfx_no_plus by (auto simp: takeWhile_eq_all_conv)
  have bld': "identifiers_after CHR ''+'' (?t @ ?sfx) = []"
    using no_plus sfx_no_plus by (simp add: identifiers_after_Nil)
  have main': "takeWhile (\<lambda>c. c \<noteq> CHR ''-'') (?t @ ?sfx) = ?t"
    using no_dash by (subst takeWhile_append2) auto
  have main0: "takeWhile (\<lambda>c. c \<noteq> CHR ''-'') ?t = ?t"
    using no_dash by (auto simp: takeWhile_eq_all_conv)
  have "dropWhile (\<lambda>c. c \<noteq> CHR ''-'') (?t @ ?sfx) = ?sfx"
    using no_dash by (subst dropWhile_append2) auto
  then have pre': "identifiers_after CHR ''-'' (?t @ ?sfx) = [''exp'', sha]"
    using sha_no_dot by (simp add: identifiers_after_def split_on_no_sep)
  have "is_prerelease_identifier ''exp''"
    by (simp add: is_prerelease_identifier_def is_letter_dash_number_def is_digit_def)
  with sha have pre_ok: "\<forall>i \<in> set [''exp'', sha]. is_prerelease_identifier i"
    by simp
  have len': "\<not> MAX_LENGTH < length (cur @ ?sfx)"
    using len by simp
  have "SemVer (cur @ ?sfx) =
      Some \<lparr>major = to_number a, minor = to_number b, patch = to_number c,
         prerelease = [''exp'', sha], build = []\<rparr>"
    unfolding SemVer_def Let_def t' front' bld' main' pre'
    using main ok pre_ok len' unfolding front main0
    by simp
  moreover have "sv\<lparr>prerelease := [''exp'', sha]\<rparr> =
      \<lparr>major = to_number a, minor = to_number b, patch = to_number c,
         prerelease = [''exp'', sha], build = []\<rparr>"
    using sv_eq stable(2) by simp
  ultimately show ?thesis by simp
qed

lemma compare_exp_suffix:
  assumes "SemVer cur = Some sv" "prerelease sv = []" "build sv = []"
    "trim cur = cur" "is_prerelease_identifier sha" "length (cur @ ''-exp.'' @ sha) \<le> MAX_LENGTH"
  shows "semver_compare (cur @ ''-exp.'' @ sha) cur = Some (- 1)"
  using SemVer_exp_suffix [OF assms] assms(1,2)
  by (simp add: semver_compare_def compareMain_def comparePre_def compare_numbers_def)

lemma split_on_append:
  "split_on sep (s @ t) =
     butlast (split_on sep s) @ [last (split_on sep s) @ hd (split_on sep t)] @ tl (split_on sep t)"
proof (induction s)
  case Nil
  then show ?case by simp
next
  case (Cons c cs)
  show ?case
  proof (cases "butlast (split_on sep cs)")
    case Nil
    then have one: "split_on sep cs = [last (split_on sep cs)]"
      by (metis append_butlast_last_id append_Nil split_on_not_Nil)
    then have hd_one: "hd (split_on sep cs) = last (split_on sep cs)" "tl (split_on sep cs) = []"
      by (metis list.sel(1), metis list.sel(3))
    show ?thesis
      using Cons.IH Nil hd_one by simp
  next
    case (Cons x xs)
    then have "split_on sep cs = (x # xs) @ [last (split_on sep cs)]"
      by (metis append_butlast_last_id split_on_not_Nil)
    then have sel: "hd (split_on sep cs) = x" "tl (split_on sep cs) = xs @ [last (split_on sep cs)]"
      by (metis append_Cons list.sel(1), metis append_Cons list.sel(3))
    show ?thesis
      using Cons.IH Cons sel by simp
  qed
qed

lemma split_on_exp_suffix:
  assumes "CHR ''.'' \<notin> set sha"
  shows "split_on CHR ''.'' (s @ ''-exp.'' @ sha) =
     butlast (split_on CHR ''.'' s) @ [last (split_on CHR ''.'' s) @ ''-exp'', sha]"
proof -
  have "split_on CHR ''.'' (''-exp.'' @ sha) = [''-exp'', sha]"
    using assms by (simp add: split_on_no_sep)
  then show ?thesis
    by (simp add: split_on_append [of _ s])
qed

lemma identifiers_after_exp_suffix:
  assumes "sep \<in> set s" and "CHR ''.'' \<notin> set sha"
  shows "identifiers_after sep (s @ ''-exp.'' @ sha) =
     butlast (identifiers_after sep s) @ [last (identifiers_after sep s) @ ''-exp'', sha]"
proof -
  let ?d = "dropWhile (\<lambda>c. c \<noteq> sep) s"
  have d: "?d \<noteq> []"
    using assms(1) by (simp add: dropWhile_eq_Nil_conv)
  have "dropWhile (\<lambda>c. c \<noteq> sep) (s @ ''-exp.'' @ sha) = ?d @ ''-exp.'' @ sha"
    using assms(1) by (intro dropWhile_append1 [of sep]) auto
  moreover have "tl (?d @ ''-exp.'' @ sha) = tl ?d @ ''-exp.'' @ sha"
    using d by simp
  ultimately have "identifiers_after sep (s @ ''-exp.'' @ sha) =
      split_on CHR ''.'' (tl ?d @ ''-exp.'' @ sha)"
    using d by (simp add: identifiers_after_def Let_def)
  moreover have "identifiers_after sep s = split_on CHR ''.'' (tl ?d)"
    using assms(1) by (auto simp: identifiers_after_def Let_def dropWhile_eq_Nil_conv)
  ultimately show ?thesis
    using split_on_exp_suffix [OF assms(2), of "tl ?d"] by simp
qed

lemma compare_identifier_lists_same [simp]: "compare_identifier_lists xs xs = 0"
  by (induction xs) auto

lemma compare_identifier_lists_prefix [simp]:
  "compare_identifier_lists (xs @ ys) (xs @ zs) = compare_identifier_lists ys zs"
  by (induction xs) auto

lemma string_less_append: "\<not> string_less (l @ x) l"
proof (induction l)
  case Nil
  then show ?case by (cases x) simp_all
next
  case (Cons c cs)
  then show ?case by simp
qed

lemma compareIdentifiers_exp: "compareIdentifiers (l @ ''-exp'') l = 1"
proof -
  have "\<not> is_digit CHR ''-''"
    by (simp add: is_digit_def)
  then have "\<not> (l @ ''-exp'' \<noteq> [] \<and> (\<forall>c \<in> set (l @ ''-exp''). is_digit c))"
    by simp
  moreover have "l @ ''-exp'' \<noteq> l"
    by simp
  ultimately show ?thesis
    unfolding compareIdentifiers_def Let_def
    using string_less_append [of l "''-exp''"] by presburger
qed

lemma SemVer_parts:
  assumes "SemVer cur = Some sv"
  obtains a b c where
    "split_on CHR ''.'' (takeWhile (\<lambda>c. c \<noteq> CHR ''-'')
        (takeWhile (\<lambda>c. c \<noteq> CHR ''+'') (strip_v (trim cur)))) = [a, b, c]"
    "is_numeric_identifier a \<and> is_numeric_identifier b \<and> is_numeric_identifier c \<and>
       to_number a \<le> MAX_SAFE_INTEGER \<and> to_number b \<le> MAX_SAFE_INTEGER \<and>
       to_number c \<le> MAX_SAFE_INTEGER"
    "sv = \<lparr>major = to_number a, minor = to_number b, patch = to_number c,
         prerelease = identifiers_after CHR ''-'' (takeWhile (\<lambda>c. c \<noteq> CHR ''+'') (strip_v (trim cur))),
         build = identifiers_after CHR ''+'' (strip_v (trim cur))\<rparr>"
    "\<forall>i \<in> set (prerelease sv). is_prerelease_identifier i"
    "\<forall>i \<in> set (build sv). is_build_identifier i"
    "\<not> MAX_LENGTH < length cur" "cur \<noteq> []"
proof -
  have ne: "cur \<noteq> []"
  proof
    assume "cur = []"
    then have "SemVer cur = None"
      by (simp add: SemVer_def trim_def strip_v_def identifiers_after_def)
    with assms show False by simp
  qed
  from assms have len: "\<not> MAX_LENGTH < length cur"
    by (auto simp: SemVer_def split: if_splits)
  from assms len obtain a b c where
    "split_on CHR ''.'' (takeWhile (\<lambda>c. c \<noteq> CHR ''-'')
        (takeWhile (\<lambda>c. c \<noteq> CHR ''+'') (strip_v (trim cur)))) = [a, b, c]"
    "is_numeric_identifier a \<and> is_numeric_identifier b \<and> is_numeric_identifier c \<and>
       to_number a \<le> MAX_SAFE_INTEGER \<and> to_number b \<le> MAX_SAFE_INTEGER \<and>
       to_number c \<le> MAX_SAFE_INTEGER"
    "sv = \<lparr>major = to_number a, minor = to_number b, patch = to_number c,
         prerelease = identifiers_after CHR ''-'' (takeWhile (\<lambda>c. c \<noteq> CHR ''+'') (strip_v (trim cur))),
         build = identifiers_after CHR ''+'' (strip_v (trim cur))\<rparr>"
    "\<forall>i \<in> set (identifiers_after CHR ''-'' (takeWhile (\<lambda>c. c \<noteq> CHR ''+'') (strip_v (trim cur)))).
        is_prerelease_identifier i"
    "\<forall>i \<in> set (identifiers_after CHR ''+'' (strip_v (trim cur))). is_build_identifier i"
    by (auto simp: SemVer_def Let_def split: list.splits if_splits)
  with len ne that show ?thesis
    by simp
qed

lemma build_identifier_exp:
  "is_build_identifier l \<Longrightarrow> is_build_identifier (l @ ''-exp'')"
  by (simp add: is_build_identifier_def is_letter_dash_number_def)

lemma prerelease_identifier_exp:
  "is_prerelease_identifier l \<Longrightarrow> is_prerelease_identifier (l @ ''-exp'')"
proof -
  assume l: "is_prerelease_identifier l"
  have "\<not> is_digit CHR ''-''"
    by (simp add: is_digit_def)
  then have "\<not> (\<forall>c \<in> set (l @ ''-exp''). is_digit c)"
    by simp
  moreover have "\<forall>c \<in> set (l @ ''-exp''). is_letter_dash_number c"
    using l by (simp add: is_prerelease_identifier_def is_letter_dash_number_def)
  ultimately show ?thesis
    unfolding is_prerelease_identifier_def by blast
qed

lemma prerelease_is_build_identifier:
  "is_prerelease_identifier s \<Longrightarrow> is_build_identifier s"
  by (simp add: is_prerelease_identifier_def is_build_identifier_def)

lemma identifiers_exp_suffix_valid:
  assumes "ids \<noteq> []" and "\<forall>i \<in> set ids. P i" and "P (last ids) \<Longrightarrow> P (last ids @ ''-exp'')"
    and "P sha"
  shows "\<forall>i \<in> set (butlast ids @ [last ids @ ''-exp'', sha]). P i"
proof -
  have "set (butlast ids) \<subseteq> set ids"
    by (auto dest: in_set_butlastD)
  moreover have "P (last ids)"
    using assms(1,2) by simp
  ultimately show ?thesis
    using assms(2,3,4) by auto
qed

lemma SemVer_exp_suffix_prerelease:
  assumes sv: "SemVer cur = Some sv" and pre: "prerelease sv \<noteq> []" and bld: "build sv = []"
    and trimmed: "trim cur = cur"
    and sha: "is_prerelease_identifier sha"
    and len: "length (cur @ ''-exp.'' @ sha) \<le> MAX_LENGTH"
  shows "SemVer (cur @ ''-exp.'' @ sha) =
     Some (sv\<lparr>prerelease := butlast (prerelease sv) @ [last (prerelease sv) @ ''-exp'', sha]\<rparr>)"
proof -
  let ?sfx = "''-exp.'' @ sha"
  let ?t = "strip_v (trim cur)"
  let ?pre' = "butlast (prerelease sv) @ [last (prerelease sv) @ ''-exp'', sha]"
  have sha_chars: "\<forall>c \<in> set sha. is_letter_dash_number c" and sha_ne: "sha \<noteq> []"
    using sha by (auto simp: is_prerelease_identifier_def)
  from sv obtain a b c where
    main: "split_on CHR ''.'' (takeWhile (\<lambda>c. c \<noteq> CHR ''-'') (takeWhile (\<lambda>c. c \<noteq> CHR ''+'') ?t))
           = [a, b, c]"
    and ok: "is_numeric_identifier a \<and> is_numeric_identifier b \<and> is_numeric_identifier c \<and>
       to_number a \<le> MAX_SAFE_INTEGER \<and> to_number b \<le> MAX_SAFE_INTEGER \<and>
       to_number c \<le> MAX_SAFE_INTEGER"
    and sv_eq: "sv = \<lparr>major = to_number a, minor = to_number b, patch = to_number c,
         prerelease = identifiers_after CHR ''-'' (takeWhile (\<lambda>c. c \<noteq> CHR ''+'') ?t),
         build = identifiers_after CHR ''+'' ?t\<rparr>"
    and pre_ok: "\<forall>i \<in> set (prerelease sv). is_prerelease_identifier i"
    and cur_ne: "cur \<noteq> []"
    by (rule SemVer_parts)
  have sfx_last: "\<not> is_white_space (last ?sfx)"
    using sha_ne sha_chars letter_dash_number_not_special [of "last sha"] by simp
  have trim': "trim (cur @ ?sfx) = cur @ ?sfx"
    by (rule trim_append_identifier [OF trimmed cur_ne _ sfx_last]) simp
  have t': "strip_v (trim (cur @ ?sfx)) = ?t @ ?sfx"
    using trim' trimmed cur_ne by (simp add: strip_v_append)
  from bld sv_eq have no_plus: "CHR ''+'' \<notin> set ?t"
    by (simp add: identifiers_after_Nil)
  then have front: "takeWhile (\<lambda>c. c \<noteq> CHR ''+'') ?t = ?t"
    by (auto simp: takeWhile_eq_all_conv)
  have pre_eq: "prerelease sv = identifiers_after CHR ''-'' ?t"
    using sv_eq front by simp
  with pre have dash: "CHR ''-'' \<in> set ?t"
    by (simp add: identifiers_after_Nil)
  have sfx_no_plus: "CHR ''+'' \<notin> set ?sfx"
    using sha_chars letter_dash_number_not_special by auto
  have sha_no_dot: "CHR ''.'' \<notin> set sha"
    using sha_chars letter_dash_number_not_special by auto
  have front': "takeWhile (\<lambda>c. c \<noteq> CHR ''+'') (?t @ ?sfx) = ?t @ ?sfx"
    using no_plus sfx_no_plus by (auto simp: takeWhile_eq_all_conv)
  have bld': "identifiers_after CHR ''+'' (?t @ ?sfx) = []"
    using no_plus sfx_no_plus by (simp add: identifiers_after_Nil)
  have main': "takeWhile (\<lambda>c. c \<noteq> CHR ''-'') (?t @ ?sfx) = takeWhile (\<lambda>c. c \<noteq> CHR ''-'') ?t"
    using dash by (intro takeWhile_append1 [of "CHR ''-''"]) auto
  have pre': "identifiers_after CHR ''-'' (?t @ ?sfx) = ?pre'"
    unfolding pre_eq by (rule identifiers_after_exp_suffix [OF dash sha_no_dot])
  have pre'_ok: "\<forall>i \<in> set ?pre'. is_prerelease_identifier i"
    using pre pre_ok sha by (intro identifiers_exp_suffix_valid prerelease_identifier_exp)
  have len': "\<not> MAX_LENGTH < length (cur @ ?sfx)"
    using len by simp
  have "SemVer (cur @ ?sfx) =
      Some \<lparr>major = to_number a, minor = to_number b, patch = to_number c,
         prerelease = ?pre', build = []\<rparr>"
    unfolding SemVer_def Let_def t' front' bld' main' pre'
    using main ok pre'_ok len' unfolding front
    by simp
  moreover have "sv\<lparr>prerelease := ?pre'\<rparr> =
      \<lparr>major = to_number a, minor = to_number b, patch = to_number c,
         prerelease = ?pre', build = []\<rparr>"
    using sv_eq bld by simp
  ultimately show ?thesis by simp
qed

lemma SemVer_exp_suffix_build:
  assumes sv: "SemVer cur = Some sv" and bld: "build sv \<noteq> []"
    and trimmed: "trim cur = cur"
    and sha: "is_prerelease_identifier sha"
    and len: "length (cur @ ''-exp.'' @ sha) \<le> MAX_LENGTH"
  shows "SemVer (cur @ ''-exp.'' @ sha) =
     Some (sv\<lparr>build := butlast (build sv) @ [last (build sv) @ ''-exp'', sha]\<rparr>)"
proof -
  let ?sfx = "''-exp.'' @ sha"
  let ?t = "strip_v (trim cur)"
  let ?bld' = "butlast (build sv) @ [last (build sv) @ ''-exp'', sha]"
  have sha_chars: "\<forall>c \<in> set sha. is_letter_dash_number c" and sha_ne: "sha \<noteq> []"
    using sha by (auto simp: is_prerelease_identifier_def)
  from sv obtain a b c where
    main: "split_on CHR ''.'' (takeWhile (\<lambda>c. c \<noteq> CHR ''-'') (takeWhile (\<lambda>c. c \<noteq> CHR ''+'') ?t))
           = [a, b, c]"
    and ok: "is_numeric_identifier a \<and> is_numeric_identifier b \<and> is_numeric_identifier c \<and>
       to_number a \<le> MAX_SAFE_INTEGER \<and> to_number b \<le> MAX_SAFE_INTEGER \<and>
       to_number c \<le> MAX_SAFE_INTEGER"
    and sv_eq: "sv = \<lparr>major = to_number a, minor = to_number b, patch = to_number c,
         prerelease = identifiers_after CHR ''-'' (takeWhile (\<lambda>c. c \<noteq> CHR ''+'') ?t),
         build = identifiers_after CHR ''+'' ?t\<rparr>"
    and pre_ok: "\<forall>i \<in> set (prerelease sv). is_prerelease_identifier i"
    and bld_ok: "\<forall>i \<in> set (build sv). is_build_identifier i"
    and cur_ne: "cur \<noteq> []"
    by (rule SemVer_parts)
  have sfx_last: "\<not> is_white_space (last ?sfx)"
    using sha_ne sha_chars letter_dash_number_not_special [of "last sha"] by simp
  have trim': "trim (cur @ ?sfx) = cur @ ?sfx"
    by (rule trim_append_identifier [OF trimmed cur_ne _ sfx_last]) simp
  have t': "strip_v (trim (cur @ ?sfx)) = ?t @ ?sfx"
    using trim' trimmed cur_ne by (simp add: strip_v_append)
  have bld_eq: "build sv = identifiers_after CHR ''+'' ?t"
    using sv_eq by simp
  with bld have plus: "CHR ''+'' \<in> set ?t"
    by (simp add: identifiers_after_Nil)
  have sha_no_dot: "CHR ''.'' \<notin> set sha"
    using sha_chars letter_dash_number_not_special by auto
  have front': "takeWhile (\<lambda>c. c \<noteq> CHR ''+'') (?t @ ?sfx) = takeWhile (\<lambda>c. c \<noteq> CHR ''+'') ?t"
    using plus by (intro takeWhile_append1 [of "CHR ''+''"]) auto
  have bld': "identifiers_after CHR ''+'' (?t @ ?sfx) = ?bld'"
    unfolding bld_eq by (rule identifiers_after_exp_suffix [OF plus sha_no_dot])
  have sha_build: "is_build_identifier sha"
    using sha by (rule prerelease_is_build_identifier)
  have bld'_ok: "\<forall>i \<in> set ?bld'. is_build_identifier i"
    using bld bld_ok sha_build by (intro identifiers_exp_suffix_valid build_identifier_exp)
  have pre_ok': "\<forall>i \<in> set (identifiers_after CHR ''-'' (takeWhile (\<lambda>c. c \<noteq> CHR ''+'') ?t)).
      is_prerelease_identifier i"
    using pre_ok sv_eq by simp
  have len': "\<not> MAX_LENGTH < length (cur @ ?sfx)"
    using len by simp
  have "SemVer (cur @ ?sfx) =
      Some \<lparr>major = to_number a, minor = to_number b, patch = to_number c,
         prerelease = identifiers_after CHR ''-'' (takeWhile (\<lambda>c. c \<noteq> CHR ''+'') ?t),
         build = ?bld'\<rparr>"
    unfolding SemVer_def Let_def t' front' bld'
    using main ok pre_ok' bld'_ok len'
    by simp
  moreover have "sv\<lparr>build := ?bld'\<rparr> =
      \<lparr>major = to_number a, minor = to_number b, patch = to_number c,
         prerelease = identifiers_after CHR ''-'' (takeWhile (\<lambda>c. c \<noteq> CHR ''+'') ?t),
         build = ?bld'\<rparr>"
    using sv_eq by simp
  ultimately show ?thesis by simp
qed

lemma compareMain_same [simp]: "compareMain (sv\<lparr>prerelease := p\<rparr>) sv = 0"
  "compareMain (sv\<lparr>build := b\<rparr>) sv = 0"
  by (simp_all add: compareMain_def compare_numbers_def)

lemma compare_exp_suffix_prerelease:
  assumes "SemVer cur = Some sv" "prerelease sv \<noteq> []" "build sv = []"
    "trim cur = cur" "is_prerelease_identifier sha" "length (cur @ ''-exp.'' @ sha) \<le> MAX_LENGTH"
  shows "semver_compare (cur @ ''-exp.'' @ sha) cur = Some 1"
proof -
  let ?p = "prerelease sv"
  have "compare_identifier_lists (butlast ?p @ [last ?p @ ''-exp'', sha]) (butlast ?p @ [last ?p]) = 1"
    unfolding compare_identifier_lists_prefix by (simp add: compareIdentifiers_exp)
  then have "compare_identifier_lists (butlast ?p @ [last ?p @ ''-exp'', sha]) ?p = 1"
    using assms(2) by simp
  with SemVer_exp_suffix_prerelease [OF assms] assms(1,2) show ?thesis
    by (simp add: semver_compare_def comparePre_def)
qed

lemma compare_exp_suffix_build:
  assumes "SemVer cur = Some sv" "build sv \<noteq> []"
    "trim cur = cur" "is_prerelease_identifier sha" "length (cur @ ''-exp.'' @ sha) \<le> MAX_LENGTH"
  shows "semver_compare (cur @ ''-exp.'' @ sha) cur = Some 0"
  using SemVer_exp_suffix_build [OF assms] assms(1)
  by (simp add: semver_compare_def comparePre_def)

lemma compare_exp_suffix_regimes:
  assumes "SemVer cur = Some sv" "trim cur = cur" "is_prerelease_identifier sha"
    "length (cur @ ''-exp.'' @ sha) \<le> MAX_LENGTH"
  shows "semver_compare (cur @ ''-exp.'' @ sha) cur =
     Some (if build sv \<noteq> [] then 0 else if prerelease sv = [] then - 1 else 1)"
proof (cases "build sv = []")
  case False
  with compare_exp_suffix_build [OF assms(1) False assms(2,3,4)] show ?thesis
    by simp
next
  case True
  show ?thesis
  proof (cases "prerelease sv = []")
    case stable: True
    from compare_exp_suffix [OF assms(1) stable True assms(2,3,4)] True stable show ?thesis
      by simp
  next
    case False
    from compare_exp_suffix_prerelease [OF assms(1) False True assms(2,3,4)] True False
    show ?thesis
      by simp
  qed
qed

subsection \<open>The scenario, evaluated\<close>

lemmas semver_eval = SemVer_def MAX_LENGTH_def MAX_SAFE_INTEGER_def trim_def is_white_space_def
  is_numeric_identifier_def is_prerelease_identifier_def is_build_identifier_def
  is_letter_dash_number_def is_digit_def to_number_def digit_val_def strip_v_def
  identifiers_after_def Let_def

lemma inc_patch_1_2_3: "inc_patch (Str ''1.2.3'') = Str ''1.2.4''"
  by (simp add: inc_patch_def format_def semver_eval show_nat.simps)

lemma removeExp_examples:
  "removeExpInPackageName ''firebase-exp'' = ''firebase''"
  "removeExpInPackageName ''@x/a-exp'' = ''@x/a-exp''"
  "removeExpInPackageName ''@x/b-exp'' = ''@x/b-exp''"
  "removeExpInPackageName ''@firebase/a-exp'' = ''@firebase/a''"
  "removeExpInPackageName ''@firebase/b-exp'' = ''@firebase/b''"
  "removeExpInPackageName ''tslib'' = ''tslib''"
  by code_simp+

lemma scenario_plan:
  "planVersions scenario_paths [] (scenario scope declined failing) =
     (Ok [(''firebase-exp'', Str ''1.2.4''), (scope @ ''/a-exp'', Str ''0.5.0-exp.abcdef''),
          (scope @ ''/b-exp'', Str ''0.5.0-exp.abcdef'')],
      (scenario scope declined failing)
        \<lparr>trace := [GitRevparse [''--short'', ''HEAD''], GitRevparse [''--short'', ''HEAD'']]\<rparr>)"
  by (simp add: scenario_paths_def scenario_def scenario_files_def readPackageJson_def await_def
      getCurrentSha_run FIREBASE_UMBRELLA_PACKAGE_NAME_def inc_patch_1_2_3 Map_set_def return_def
      trim_def is_white_space_def)

lemma scenario_versions:
  "fst (updatePackageNamesAndVersions scenario_paths (scenario scope declined failing)) =
     Ok [(''firebase-exp'', Str ''1.2.4''), (scope @ ''/a-exp'', Str ''0.5.0-exp.abcdef''),
         (scope @ ''/b-exp'', Str ''0.5.0-exp.abcdef'')]"
proof -
  let ?w1 = "(scenario scope declined failing)
        \<lparr>trace := [GitRevparse [''--short'', ''HEAD''], GitRevparse [''--short'', ''HEAD'']]\<rparr>"
  have "distinct scenario_paths"
    by (simp add: scenario_paths_def)
  moreover have "\<forall>q \<in> set scenario_paths. files ?w1 (q @ ''/package.json'') \<noteq> None"
    by (simp add: scenario_paths_def scenario_def scenario_files_def)
  ultimately have "updatePackageJsons scenario_paths vs opts ?w1 =
      (Ok (), rewritten scenario_paths vs opts ?w1)" for vs opts
    by (rule updatePackageJsons_distinct)
  then show ?thesis
    by (simp add: updatePackageNamesAndVersions_def await_def scenario_plan return_def)
qed

lemma scenario_rewrite:
  "descriptor (snd (updatePackageNamesAndVersions scenario_paths (scenario scope declined failing))) p =
     (if p \<in> set scenario_paths
      then updatePackageJson
             [(''firebase-exp'', Str ''1.2.4''), (scope @ ''/a-exp'', Str ''0.5.0-exp.abcdef''),
              (scope @ ''/b-exp'', Str ''0.5.0-exp.abcdef'')]
             \<lparr>removeExpInName = True, updateVersions = True, makePublic = True\<rparr>
             (descriptor (scenario scope declined failing) p)
      else descriptor (scenario scope declined failing) p)"
proof -
  let ?w1 = "(scenario scope declined failing)
        \<lparr>trace := [GitRevparse [''--short'', ''HEAD''], GitRevparse [''--short'', ''HEAD'']]\<rparr>"
  have "distinct scenario_paths"
    by (simp add: scenario_paths_def)
  moreover have ex: "\<forall>q \<in> set scenario_paths. files ?w1 (q @ ''/package.json'') \<noteq> None"
    by (simp add: scenario_paths_def scenario_def scenario_files_def)
  ultimately have "updatePackageJsons scenario_paths vs opts ?w1 =
      (Ok (), rewritten scenario_paths vs opts ?w1)" for vs opts
    by (rule updatePackageJsons_distinct)
  then have "snd (updatePackageNamesAndVersions scenario_paths (scenario scope declined failing)) =
      rewritten scenario_paths
        [(''firebase-exp'', Str ''1.2.4''), (scope @ ''/a-exp'', Str ''0.5.0-exp.abcdef''),
         (scope @ ''/b-exp'', Str ''0.5.0-exp.abcdef'')]
        \<lparr>removeExpInName = True, updateVersions = True, makePublic = True\<rparr> ?w1"
    by (simp add: updatePackageNamesAndVersions_def await_def scenario_plan return_def)
  then show ?thesis
    using ex by (auto simp: descriptor_def rewritten_def option.map_sel)
qed

lemma scenario_x:
  "descriptor (snd (updatePackageNamesAndVersions scenario_paths (scenario ''@x'' declined failing)))
      ''/repo/packages-exp/firebase-exp'' =
     \<lparr>name = ''firebase'', version = Str ''1.2.4'', isPrivate = Some False,
      dependencies = Some [(''@x/a-exp'', ''0.5.0-exp.abcdef'')], peerDependencies = Some [],
      devDependencies = Some [(''typescript'', ''4.2.2'')]\<rparr>"
  "descriptor (snd (updatePackageNamesAndVersions scenario_paths (scenario ''@x'' declined failing)))
      ''/repo/packages-exp/a-exp'' =
     \<lparr>name = ''@x/a-exp'', version = Str ''0.5.0-exp.abcdef'', isPrivate = Some False,
      dependencies = Some [(''@x/b-exp'', ''0.5.0-exp.abcdef''), (''tslib'', ''^2.1.0'')],
      peerDependencies = Some [],
      devDependencies = Some [(''@x/b-exp'', ''0.5.0'')]\<rparr>"
  unfolding scenario_rewrite
  by (simp_all add: scenario_paths_def scenario_def scenario_files_def
      descriptor_def updatePackageJson_def rewriteDependencies_def or_empty_def Map_get_def
      removeExp_examples)

lemma scenario_firebase:
  "descriptor (snd (updatePackageNamesAndVersions scenario_paths (scenario ''@firebase'' declined failing)))
      ''/repo/packages-exp/firebase-exp'' =
     \<lparr>name = ''firebase'', version = Str ''1.2.4'', isPrivate = Some False,
      dependencies = Some [(''@firebase/a'', ''0.5.0-exp.abcdef'')], peerDependencies = Some [],
      devDependencies = Some [(''typescript'', ''4.2.2'')]\<rparr>"
  "descriptor (snd (updatePackageNamesAndVersions scenario_paths (scenario ''@firebase'' declined failing)))
      ''/repo/packages-exp/a-exp'' =
     \<lparr>name = ''@firebase/a'', version = Str ''0.5.0-exp.abcdef'', isPrivate = Some False,
      dependencies = Some [(''@firebase/b'', ''0.5.0-exp.abcdef''), (''tslib'', ''^2.1.0'')],
      peerDependencies = Some [],
      devDependencies = Some [(''@firebase/b-exp'', ''0.5.0'')]\<rparr>"
  unfolding scenario_rewrite
  by (simp_all add: scenario_paths_def scenario_def scenario_files_def
      descriptor_def updatePackageJson_def rewriteDependencies_def or_empty_def Map_get_def
      removeExp_examples)

lemma versioned_package_versions:
  "fst (updatePackageNamesAndVersions [''/repo/packages-exp/c-exp''] (versioned_package v)) =
     Ok [(''@x/c-exp'', Str (v @ ''-exp.abcdef''))]"
  by (simp add: updatePackageNamesAndVersions_def versioned_package_def scenario_def
      readPackageJson_def writeFile_def await_def getCurrentSha_run
      FIREBASE_UMBRELLA_PACKAGE_NAME_def Map_set_def return_def trim_def is_white_space_def)

lemma versioned_package_facts:
  "''/repo/packages-exp/c-exp'' \<in> set [''/repo/packages-exp/c-exp'']"
  "name (descriptor (versioned_package v) ''/repo/packages-exp/c-exp'') \<noteq>
     FIREBASE_UMBRELLA_PACKAGE_NAME"
  "\<forall>q \<in> set [''/repo/packages-exp/c-exp''].
     name (descriptor (versioned_package v) q) =
       name (descriptor (versioned_package v) ''/repo/packages-exp/c-exp'') \<longrightarrow>
     q = ''/repo/packages-exp/c-exp''"
  "version (descriptor (versioned_package v) ''/repo/packages-exp/c-exp'') = Str v"
  "revparseResult (versioned_package v) = Inr (''abcdef'' @ [CHR 0x0A])"
  "name (descriptor (versioned_package v) ''/repo/packages-exp/c-exp'') = ''@x/c-exp''"
  by (simp_all add: versioned_package_def scenario_def descriptor_def
      FIREBASE_UMBRELLA_PACKAGE_NAME_def)

subsection \<open>The rewriting of descriptors\<close>

text \<open>
  C2, as the code has it. For the working set of the scenario (umbrella \<^verbatim>\<open>firebase-exp\<close> at
  1.2.3, \<^verbatim>\<open>@x/a-exp\<close> at 0.5.0 depending on \<^verbatim>\<open>@x/b-exp\<close>, \<^verbatim>\<open>@x/b-exp\<close> planned to
  \<^verbatim>\<open>0.5.0-exp.abcdef\<close>) the publish-mode rewrite renames \<^verbatim>\<open>firebase-exp\<close> to \<^verbatim>\<open>firebase\<close>, at
  version 1.2.4 and public. The package \<^verbatim>\<open>@x/a-exp\<close> gets the version \<^verbatim>\<open>0.5.0-exp.abcdef\<close> and
  its dependency the value \<^verbatim>\<open>0.5.0-exp.abcdef\<close>, but both keep their names: only a name
  that contains \<^verbatim>\<open>firebase\<close> loses its \<^verbatim>\<open>-exp\<close>. In the scope \<^verbatim>\<open>@firebase\<close> the same working
  set gives \<^verbatim>\<open>@firebase/a\<close> with the dependency \<^verbatim>\<open>@firebase/b\<close>.
\<close>

theorem publish_rewrite_scenario:
  "descriptor (snd (updatePackageNamesAndVersions scenario_paths (scenario ''@x'' declined failing)))
      ''/repo/packages-exp/firebase-exp'' =
     \<lparr>name = ''firebase'', version = Str ''1.2.4'', isPrivate = Some False,
      dependencies = Some [(''@x/a-exp'', ''0.5.0-exp.abcdef'')], peerDependencies = Some [],
      devDependencies = Some [(''typescript'', ''4.2.2'')]\<rparr> \<and>
   descriptor (snd (updatePackageNamesAndVersions scenario_paths (scenario ''@x'' declined failing)))
      ''/repo/packages-exp/a-exp'' =
     \<lparr>name = ''@x/a-exp'', version = Str ''0.5.0-exp.abcdef'', isPrivate = Some False,
      dependencies = Some [(''@x/b-exp'', ''0.5.0-exp.abcdef''), (''tslib'', ''^2.1.0'')],
      peerDependencies = Some [],
      devDependencies = Some [(''@x/b-exp'', ''0.5.0'')]\<rparr> \<and>
   descriptor (snd (updatePackageNamesAndVersions scenario_paths (scenario ''@firebase'' declined failing)))
      ''/repo/packages-exp/firebase-exp'' =
     \<lparr>name = ''firebase'', version = Str ''1.2.4'', isPrivate = Some False,
      dependencies = Some [(''@firebase/a'', ''0.5.0-exp.abcdef'')], peerDependencies = Some [],
      devDependencies = Some [(''typescript'', ''4.2.2'')]\<rparr> \<and>
   descriptor (snd (updatePackageNamesAndVersions scenario_paths (scenario ''@firebase'' declined failing)))
      ''/repo/packages-exp/a-exp'' =
     \<lparr>name = ''@firebase/a'', version = Str ''0.5.0-exp.abcdef'', isPrivate = Some False,
      dependencies = Some [(''@firebase/b'', ''0.5.0-exp.abcdef''), (''tslib'', ''^2.1.0'')],
      peerDependencies = Some [],
      devDependencies = Some [(''@firebase/b-exp'', ''0.5.0'')]\<rparr>"
  using scenario_x [of declined failing] scenario_firebase [of declined failing] by simp

theorem publish_rewrite_scenario_witness:
  "name (descriptor (snd (updatePackageNamesAndVersions scenario_paths
            (scenario ''@x'' [] []))) ''/repo/packages-exp/firebase-exp'')
     = ''firebase'' \<and>
   dependencies (descriptor (snd (updatePackageNamesAndVersions scenario_paths
            (scenario ''@firebase'' [] []))) ''/repo/packages-exp/a-exp'')
     = Some [(''@firebase/b'', ''0.5.0-exp.abcdef''), (''tslib'', ''^2.1.0'')]"
  using publish_rewrite_scenario [of "[]" "[]"] by simp

text \<open>
  C2 as the specification states it fails: after the rewrite the package \<^verbatim>\<open>@x/a-exp\<close> is not
  named \<^verbatim>\<open>@x/a\<close>, and its dependencies have no key \<^verbatim>\<open>@x/b\<close>.
\<close>

theorem publish_rewrite_scenario_counterexample:
  "name (descriptor (snd (updatePackageNamesAndVersions scenario_paths
            (scenario ''@x'' [] []))) ''/repo/packages-exp/a-exp'')
     \<noteq> ''@x/a'' \<and>
   map_of (or_empty (dependencies (descriptor (snd (updatePackageNamesAndVersions scenario_paths
            (scenario ''@x'' [] []))) ''/repo/packages-exp/a-exp''))) ''@x/b''
     = None"
  by (simp add: scenario_x or_empty_def)

text \<open>
  C7. Whatever the options, the rewrite leaves \<^verbatim>\<open>devDependencies\<close> as they are: in the
  descriptor that the loop body computes, and in every descriptor file after
  \<^verbatim>\<open>updatePackageJsons\<close> has run (or has stopped at a missing descriptor).
\<close>

theorem devDependencies_never_rewritten:
  "devDependencies (updatePackageJson vs opts pj) = devDependencies pj \<and>
   (updatePackageJsons ps vs opts w = (r, w') \<and> files w f = Some pj \<longrightarrow>
      (\<exists>pj'. files w' f = Some pj' \<and> devDependencies pj' = devDependencies pj))"
  using devDependencies_updatePackageJson updatePackageJsons_devDependencies by blast

theorem devDependencies_never_rewritten_witness:
  "files (scenario ''@firebase'' [] []) ''/repo/packages-exp/a-exp/package.json'' =
     Some \<lparr>name = ''@firebase/a-exp'', version = Str ''0.5.0'', isPrivate = Some True,
         dependencies = Some [(''@firebase/b-exp'', ''^0.5.0''), (''tslib'', ''^2.1.0'')],
         peerDependencies = None,
         devDependencies = Some [(''@firebase/b-exp'', ''0.5.0'')]\<rparr> \<and>
   (\<exists>pj'. files (snd (updatePackageJsons scenario_paths
                 [(''@firebase/b-exp'', Str ''0.5.0-exp.abcdef'')]
                 \<lparr>removeExpInName = True, updateVersions = True, makePublic = True\<rparr>
                 (scenario ''@firebase'' [] [])))
            ''/repo/packages-exp/a-exp/package.json'' = Some pj' \<and>
      devDependencies pj' = Some [(''@firebase/b-exp'', ''0.5.0'')])"
proof -
  let ?w = "scenario ''@firebase'' [] []"
  let ?run = "updatePackageJsons scenario_paths [(''@firebase/b-exp'', Str ''0.5.0-exp.abcdef'')]
                 \<lparr>removeExpInName = True, updateVersions = True, makePublic = True\<rparr> ?w"
  have f: "files ?w ''/repo/packages-exp/a-exp/package.json'' =
     Some \<lparr>name = ''@firebase/a-exp'', version = Str ''0.5.0'', isPrivate = Some True,
         dependencies = Some [(''@firebase/b-exp'', ''^0.5.0''), (''tslib'', ''^2.1.0'')],
         peerDependencies = None,
         devDependencies = Some [(''@firebase/b-exp'', ''0.5.0'')]\<rparr>"
    by (simp add: scenario_def scenario_files_def)
  have r: "?run = (fst ?run, snd ?run)"
    by simp
  from devDependencies_never_rewritten [THEN conjunct2, rule_format, OF conjI, OF r f] f
  show ?thesis by simp
qed

text \<open>
  C10. With \<^verbatim>\<open>updateVersions\<close>, a package whose name has no entry in the version map is
  no error: the rewrite succeeds, the descriptor is written, and its version is
  \<^verbatim>\<open>undefined\<close>, so that the written file has no version field.
\<close>

theorem missing_version_entry_unsets_version:
  "distinct ps \<and> (\<forall>q \<in> set ps. files w (q @ ''/package.json'') \<noteq> None) \<and> p \<in> set ps \<and>
   name (descriptor w p) \<notin> fst ` set vs \<and> updateVersions opts \<longrightarrow>
     fst (updatePackageJsons ps vs opts w) = Ok () \<and>
     WriteFile (p @ ''/package.json'') \<in> set (trace (snd (updatePackageJsons ps vs opts w))) \<and>
     version (descriptor (snd (updatePackageJsons ps vs opts w)) p) = Undefined"
proof
  assume h: "distinct ps \<and> (\<forall>q \<in> set ps. files w (q @ ''/package.json'') \<noteq> None) \<and> p \<in> set ps \<and>
   name (descriptor w p) \<notin> fst ` set vs \<and> updateVersions opts"
  then have run: "updatePackageJsons ps vs opts w = (Ok (), rewritten ps vs opts w)"
    by (simp add: updatePackageJsons_distinct)
  from h obtain pj where pj: "files w (p @ ''/package.json'') = Some pj"
    by auto
  with h have "map_of vs (name pj) = None"
    by (simp add: descriptor_def map_of_eq_None_iff)
  then have "version (updatePackageJson vs opts pj) = Undefined"
    using h by (simp add: updatePackageJson_def Map_get_def Let_def)
  with pj h have "version (descriptor (rewritten ps vs opts w) p) = Undefined"
    by (simp add: descriptor_def rewritten_def)
  moreover have "WriteFile (p @ ''/package.json'') \<in> set (trace (rewritten ps vs opts w))"
    using h by (simp add: rewritten_def)
  ultimately show "fst (updatePackageJsons ps vs opts w) = Ok () \<and>
     WriteFile (p @ ''/package.json'') \<in> set (trace (snd (updatePackageJsons ps vs opts w))) \<and>
     version (descriptor (snd (updatePackageJsons ps vs opts w)) p) = Undefined"
    by (simp add: run)
qed

theorem missing_version_entry_unsets_version_witness:
  "version (descriptor (scenario ''@x'' [] []) ''/repo/packages-exp/a-exp'')
     = Str ''0.5.0'' \<and>
   fst (updatePackageJsons [''/repo/packages-exp/a-exp''] [(''firebase-exp'', Str ''1.2.4'')]
          \<lparr>removeExpInName = False, updateVersions = True, makePublic = False\<rparr>
          (scenario ''@x'' [] [])) = Ok () \<and>
   version (descriptor (snd (updatePackageJsons [''/repo/packages-exp/a-exp'']
          [(''firebase-exp'', Str ''1.2.4'')]
          \<lparr>removeExpInName = False, updateVersions = True, makePublic = False\<rparr>
          (scenario ''@x'' [] []))) ''/repo/packages-exp/a-exp'') = Undefined"
proof -
  let ?w = "scenario ''@x'' [] []"
  have h: "distinct [''/repo/packages-exp/a-exp''] \<and>
     (\<forall>q \<in> set [''/repo/packages-exp/a-exp'']. files ?w (q @ ''/package.json'') \<noteq> None) \<and>
     ''/repo/packages-exp/a-exp'' \<in> set [''/repo/packages-exp/a-exp''] \<and>
     name (descriptor ?w ''/repo/packages-exp/a-exp'') \<notin> fst ` set [(''firebase-exp'', Str ''1.2.4'')] \<and>
     updateVersions \<lparr>removeExpInName = False, updateVersions = True, makePublic = False\<rparr>"
    by (simp add: scenario_def scenario_files_def descriptor_def)
  have v: "version (descriptor ?w ''/repo/packages-exp/a-exp'') = Str ''0.5.0''"
    by (simp add: scenario_def scenario_files_def descriptor_def)
  from missing_version_entry_unsets_version [rule_format, OF h] v show ?thesis
    by simp
qed

subsection \<open>The version plan\<close>

text \<open>
  C5. When the version planning has run, the version map has exactly one entry for every
  package name of the working set and no other entry. If the umbrella package's current
  version is a stable version (it parses and has no prerelease part), its entry is that
  version with the patch number incremented by one.
\<close>

theorem version_plan_entries:
  "updatePackageNamesAndVersions ps w = (Ok vs, w') \<longrightarrow>
     distinct (map fst vs) \<and>
     fst ` set vs = (\<lambda>p. name (descriptor w p)) ` set ps \<and>
     (\<forall>p \<in> set ps. files w (p @ ''/package.json'') \<noteq> None) \<and>
     (\<forall>p \<in> set ps. \<forall>v sv.
        name (descriptor w p) = FIREBASE_UMBRELLA_PACKAGE_NAME \<and>
        (\<forall>q \<in> set ps. name (descriptor w q) = FIREBASE_UMBRELLA_PACKAGE_NAME \<longrightarrow> q = p) \<and>
        version (descriptor w p) = Str v \<and> SemVer v = Some sv \<and> prerelease sv = [] \<longrightarrow>
        Map_get vs FIREBASE_UMBRELLA_PACKAGE_NAME =
          Str (show_nat (major sv) @ ''.'' @ show_nat (minor sv) @ ''.'' @
               show_nat (patch sv + 1)))"
proof
  assume run: "updatePackageNamesAndVersions ps w = (Ok vs, w')"
  let ?k = "\<lambda>p. name (descriptor w p)"
  let ?v = "\<lambda>p. nextVersion w (descriptor w p)"
  from updatePackageNamesAndVersions_Ok [OF run] have
    files: "\<forall>p \<in> set ps. files w (p @ ''/package.json'') \<noteq> None" and
    vs: "vs = fold (\<lambda>p acc. Map_set acc (?k p) (?v p)) ps []"
    by auto
  have 1: "distinct (map fst vs)"
    unfolding vs by (rule distinct_fold_Map_set) simp
  have 2: "fst ` set vs = ?k ` set ps"
    unfolding vs by (simp add: keys_fold_Map_set)
  have 3: "Map_get vs FIREBASE_UMBRELLA_PACKAGE_NAME =
          Str (show_nat (major sv) @ ''.'' @ show_nat (minor sv) @ ''.'' @ show_nat (patch sv + 1))"
    if p: "p \<in> set ps" and u: "?k p = FIREBASE_UMBRELLA_PACKAGE_NAME"
      and only: "\<forall>q \<in> set ps. ?k q = FIREBASE_UMBRELLA_PACKAGE_NAME \<longrightarrow> q = p"
      and v: "version (descriptor w p) = Str v" "SemVer v = Some sv" "prerelease sv = []"
    for p v sv
  proof -
    have "\<forall>q \<in> set ps. ?k q = ?k p \<longrightarrow> ?v q = ?v p"
      using only u by auto
    from Map_get_fold_Map_set [of p ps ?k ?v, OF p this]
    have "Map_get vs (?k p) = ?v p"
      unfolding vs .
    then show ?thesis
      using u v by (simp add: nextVersion_def inc_patch_def format_def)
  qed
  from 1 2 3 files show "distinct (map fst vs) \<and>
     fst ` set vs = ?k ` set ps \<and>
     (\<forall>p \<in> set ps. files w (p @ ''/package.json'') \<noteq> None) \<and>
     (\<forall>p \<in> set ps. \<forall>v sv.
        ?k p = FIREBASE_UMBRELLA_PACKAGE_NAME \<and>
        (\<forall>q \<in> set ps. ?k q = FIREBASE_UMBRELLA_PACKAGE_NAME \<longrightarrow> q = p) \<and>
        version (descriptor w p) = Str v \<and> SemVer v = Some sv \<and> prerelease sv = [] \<longrightarrow>
        Map_get vs FIREBASE_UMBRELLA_PACKAGE_NAME =
          Str (show_nat (major sv) @ ''.'' @ show_nat (minor sv) @ ''.'' @
               show_nat (patch sv + 1)))"
    by blast
qed

theorem version_plan_entries_witness:
  "fst (updatePackageNamesAndVersions scenario_paths (scenario ''@x'' [] [])) =
     Ok [(''firebase-exp'', Str ''1.2.4''), (''@x/a-exp'', Str ''0.5.0-exp.abcdef''),
         (''@x/b-exp'', Str ''0.5.0-exp.abcdef'')] \<and>
   distinct (map fst [(''firebase-exp'', Str ''1.2.4''), (''@x/a-exp'', Str ''0.5.0-exp.abcdef''),
         (''@x/b-exp'', Str ''0.5.0-exp.abcdef'')]) \<and>
   (\<lambda>p. name (descriptor (scenario ''@x'' [] []) p)) ` set scenario_paths =
     {''firebase-exp'', ''@x/a-exp'', ''@x/b-exp''} \<and>
   SemVer ''1.2.3'' = Some \<lparr>major = 1, minor = 2, patch = 3, prerelease = [], build = []\<rparr> \<and>
   Map_get [(''firebase-exp'', Str ''1.2.4''), (''@x/a-exp'', Str ''0.5.0-exp.abcdef''),
         (''@x/b-exp'', Str ''0.5.0-exp.abcdef'')] FIREBASE_UMBRELLA_PACKAGE_NAME =
     Str (show_nat 1 @ ''.'' @ show_nat 2 @ ''.'' @ show_nat (3 + 1)) \<and>
   show_nat 1 @ ''.'' @ show_nat 2 @ ''.'' @ show_nat (3 + 1) = ''1.2.4''"
proof -
  have shown: "show_nat 1 @ ''.'' @ show_nat 2 @ ''.'' @ show_nat (3 + 1) = ''1.2.4''"
    by (simp add: show_nat.simps)
  let ?w = "scenario ''@x'' [] []"
  let ?vs = "[(''firebase-exp'', Str ''1.2.4''), (''@x/a-exp'', Str ''0.5.0-exp.abcdef''),
         (''@x/b-exp'', Str ''0.5.0-exp.abcdef'')]"
  let ?run = "updatePackageNamesAndVersions scenario_paths ?w"
  have vs: "fst ?run = Ok ?vs"
    using scenario_versions [of "''@x''"] by simp
  then have run: "?run = (Ok ?vs, snd ?run)"
    by (metis prod.collapse)
  have names: "(\<lambda>p. name (descriptor ?w p)) ` set scenario_paths =
     {''firebase-exp'', ''@x/a-exp'', ''@x/b-exp''}"
    by (simp add: scenario_paths_def scenario_def scenario_files_def descriptor_def)
  have sv: "SemVer ''1.2.3'' = Some \<lparr>major = 1, minor = 2, patch = 3, prerelease = [], build = []\<rparr>"
    by (simp add: semver_eval)
  have umbrella: "''/repo/packages-exp/firebase-exp'' \<in> set scenario_paths \<and>
      name (descriptor ?w ''/repo/packages-exp/firebase-exp'') = FIREBASE_UMBRELLA_PACKAGE_NAME \<and>
      (\<forall>q \<in> set scenario_paths. name (descriptor ?w q) = FIREBASE_UMBRELLA_PACKAGE_NAME \<longrightarrow>
         q = ''/repo/packages-exp/firebase-exp'') \<and>
      version (descriptor ?w ''/repo/packages-exp/firebase-exp'') = Str ''1.2.3''"
    by (simp add: scenario_paths_def scenario_def scenario_files_def descriptor_def
        FIREBASE_UMBRELLA_PACKAGE_NAME_def)
  note inst = version_plan_entries [of scenario_paths ?w ?vs "snd ?run", rule_format, OF run]
  from inst have a: "distinct (map fst ?vs)"
    by (rule conjunct1)
  from inst have c: "name (descriptor ?w p) = FIREBASE_UMBRELLA_PACKAGE_NAME \<and>
        (\<forall>q \<in> set scenario_paths.
           name (descriptor ?w q) = FIREBASE_UMBRELLA_PACKAGE_NAME \<longrightarrow> q = p) \<and>
        version (descriptor ?w p) = Str v \<and> SemVer v = Some sv \<and> prerelease sv = [] \<longrightarrow>
        Map_get ?vs FIREBASE_UMBRELLA_PACKAGE_NAME =
          Str (show_nat (major sv) @ ''.'' @ show_nat (minor sv) @ ''.'' @ show_nat (patch sv + 1))"
    if "p \<in> set scenario_paths" for p v sv
    using that by blast
  have "Map_get ?vs FIREBASE_UMBRELLA_PACKAGE_NAME =
     Str (show_nat 1 @ ''.'' @ show_nat 2 @ ''.'' @ show_nat (3 + 1))"
    using c [of "''/repo/packages-exp/firebase-exp''" "''1.2.3''"
        "\<lparr>major = 1, minor = 2, patch = 3, prerelease = [], build = []\<rparr>"] umbrella sv
    by simp
  with vs a names sv shown show ?thesis
    by blast
qed

text \<open>
  C3, as the code has it. For a package other than the umbrella package whose current
  version parses as a semantic version, the planned version is the current version followed
  by \<^verbatim>\<open>-exp.<revision>\<close>, and it is never equal to the current version. A planned version of
  more than 256 characters is not a semantic version. When the current version is written
  without white space around it, the revision is a prerelease identifier and the planned
  version has at most 256 characters, the planned version is a semantic version, and in the
  order of semantic versions it is

    \<^item> strictly below the current version, when that is a stable version without build
      metadata: a prerelease precedes its release;
    \<^item> strictly above the current version, when that is a prerelease without build
      metadata: the suffix lengthens its last prerelease identifier;
    \<^item> of the same precedence as the current version, when that has build metadata: the
      suffix is then part of the build metadata, which the order ignores.
\<close>

theorem planned_version_against_current:
  "updatePackageNamesAndVersions ps w = (Ok vs, w') \<and> p \<in> set ps \<and>
   name (descriptor w p) \<noteq> FIREBASE_UMBRELLA_PACKAGE_NAME \<and>
   (\<forall>q \<in> set ps. name (descriptor w q) = name (descriptor w p) \<longrightarrow> q = p) \<and>
   version (descriptor w p) = Str cur \<and> SemVer cur = Some sv \<and>
   revparseResult w = Inr out \<longrightarrow>
     Map_get vs (name (descriptor w p)) = Str (cur @ ''-exp.'' @ trim out) \<and>
     cur @ ''-exp.'' @ trim out \<noteq> cur \<and>
     (MAX_LENGTH < length (cur @ ''-exp.'' @ trim out) \<longrightarrow>
        semver_compare (cur @ ''-exp.'' @ trim out) cur = None) \<and>
     (trim cur = cur \<and> is_prerelease_identifier (trim out) \<and>
      length (cur @ ''-exp.'' @ trim out) \<le> MAX_LENGTH \<longrightarrow>
        semver_compare (cur @ ''-exp.'' @ trim out) cur =
          Some (if build sv \<noteq> [] then 0 else if prerelease sv = [] then - 1 else 1))"
proof
  assume h: "updatePackageNamesAndVersions ps w = (Ok vs, w') \<and> p \<in> set ps \<and>
   name (descriptor w p) \<noteq> FIREBASE_UMBRELLA_PACKAGE_NAME \<and>
   (\<forall>q \<in> set ps. name (descriptor w q) = name (descriptor w p) \<longrightarrow> q = p) \<and>
   version (descriptor w p) = Str cur \<and> SemVer cur = Some sv \<and>
   revparseResult w = Inr out"
  let ?k = "\<lambda>p. name (descriptor w p)"
  let ?v = "\<lambda>p. nextVersion w (descriptor w p)"
  let ?planned = "cur @ ''-exp.'' @ trim out"
  from h updatePackageNamesAndVersions_Ok [of ps w vs w']
  have vs: "vs = fold (\<lambda>p acc. Map_set acc (?k p) (?v p)) ps []"
    by blast
  have "\<forall>q \<in> set ps. ?k q = ?k p \<longrightarrow> ?v q = ?v p"
    using h by auto
  moreover have "p \<in> set ps"
    using h by simp
  ultimately have "Map_get vs (?k p) = ?v p"
    unfolding vs by (rule Map_get_fold_Map_set [of p ps ?k ?v, rotated])
  then have 1: "Map_get vs (?k p) = Str ?planned"
    using h by (simp add: nextVersion_def)
  have 2: "semver_compare ?planned cur = None" if "MAX_LENGTH < length ?planned"
    using that by (simp add: semver_compare_def SemVer_def)
  have 3: "semver_compare ?planned cur =
      Some (if build sv \<noteq> [] then 0 else if prerelease sv = [] then - 1 else 1)"
    if "trim cur = cur" "is_prerelease_identifier (trim out)" "length ?planned \<le> MAX_LENGTH"
    using h that by (intro compare_exp_suffix_regimes) simp_all
  from 1 2 3 show "Map_get vs (name (descriptor w p)) = Str ?planned \<and>
     ?planned \<noteq> cur \<and>
     (MAX_LENGTH < length ?planned \<longrightarrow> semver_compare ?planned cur = None) \<and>
     (trim cur = cur \<and> is_prerelease_identifier (trim out) \<and> length ?planned \<le> MAX_LENGTH \<longrightarrow>
        semver_compare ?planned cur =
          Some (if build sv \<noteq> [] then 0 else if prerelease sv = [] then - 1 else 1))"
    by simp
qed

theorem planned_version_against_current_witness:
  "SemVer ''0.5.0'' = Some \<lparr>major = 0, minor = 5, patch = 0, prerelease = [], build = []\<rparr> \<and>
   fst (updatePackageNamesAndVersions [''/repo/packages-exp/c-exp''] (versioned_package ''0.5.0'')) =
     Ok [(''@x/c-exp'', Str ''0.5.0-exp.abcdef'')] \<and>
   semver_compare ''0.5.0-exp.abcdef'' ''0.5.0'' = Some (- 1) \<and>
   SemVer ''1.0.0-beta'' =
     Some \<lparr>major = 1, minor = 0, patch = 0, prerelease = [''beta''], build = []\<rparr> \<and>
   fst (updatePackageNamesAndVersions [''/repo/packages-exp/c-exp'']
          (versioned_package ''1.0.0-beta'')) =
     Ok [(''@x/c-exp'', Str ''1.0.0-beta-exp.abcdef'')] \<and>
   semver_compare ''1.0.0-beta-exp.abcdef'' ''1.0.0-beta'' = Some 1 \<and>
   SemVer ''1.2.3+b'' =
     Some \<lparr>major = 1, minor = 2, patch = 3, prerelease = [], build = [''b'']\<rparr> \<and>
   fst (updatePackageNamesAndVersions [''/repo/packages-exp/c-exp''] (versioned_package ''1.2.3+b'')) =
     Ok [(''@x/c-exp'', Str ''1.2.3+b-exp.abcdef'')] \<and>
   semver_compare ''1.2.3+b-exp.abcdef'' ''1.2.3+b'' = Some 0"
proof -
  let ?p = "''/repo/packages-exp/c-exp''"
  let ?out = "''abcdef'' @ [CHR 0x0A]"
  have t: "trim ?out = ''abcdef''"
    by (simp add: trim_def is_white_space_def)
  have sha: "is_prerelease_identifier (trim ?out)"
    unfolding t by (simp add: is_prerelease_identifier_def is_letter_dash_number_def is_digit_def)
  have sv1: "SemVer ''0.5.0'' = Some \<lparr>major = 0, minor = 5, patch = 0, prerelease = [], build = []\<rparr>"
    and sv2: "SemVer ''1.0.0-beta'' =
      Some \<lparr>major = 1, minor = 0, patch = 0, prerelease = [''beta''], build = []\<rparr>"
    and sv3: "SemVer ''1.2.3+b'' =
      Some \<lparr>major = 1, minor = 2, patch = 3, prerelease = [], build = [''b'']\<rparr>"
    by (simp_all add: semver_eval)
  have tr: "trim ''0.5.0'' = ''0.5.0''" "trim ''1.0.0-beta'' = ''1.0.0-beta''"
      "trim ''1.2.3+b'' = ''1.2.3+b''"
    by (simp_all add: trim_def is_white_space_def)
  have len: "length (''0.5.0'' @ ''-exp.'' @ trim ?out) \<le> MAX_LENGTH"
      "length (''1.0.0-beta'' @ ''-exp.'' @ trim ?out) \<le> MAX_LENGTH"
      "length (''1.2.3+b'' @ ''-exp.'' @ trim ?out) \<le> MAX_LENGTH"
    unfolding t by (simp_all add: MAX_LENGTH_def)
  have run: "updatePackageNamesAndVersions [?p] (versioned_package v) =
      (Ok [(''@x/c-exp'', Str (v @ ''-exp.abcdef''))],
       snd (updatePackageNamesAndVersions [?p] (versioned_package v)))" for v
    using versioned_package_versions [of v] by (metis prod.collapse)
  have hyp: "updatePackageNamesAndVersions [?p] (versioned_package v) =
      (Ok [(''@x/c-exp'', Str (v @ ''-exp.abcdef''))],
       snd (updatePackageNamesAndVersions [?p] (versioned_package v))) \<and>
     ?p \<in> set [?p] \<and>
     name (descriptor (versioned_package v) ?p) \<noteq> FIREBASE_UMBRELLA_PACKAGE_NAME \<and>
     (\<forall>q \<in> set [?p]. name (descriptor (versioned_package v) q) =
        name (descriptor (versioned_package v) ?p) \<longrightarrow> q = ?p) \<and>
     version (descriptor (versioned_package v) ?p) = Str v \<and> SemVer v = Some sv \<and>
     revparseResult (versioned_package v) = Inr ?out" if "SemVer v = Some sv" for v sv
    using that by (intro conjI run versioned_package_facts)
  note i1 = planned_version_against_current [rule_format, OF hyp [OF sv1]]
  note i2 = planned_version_against_current [rule_format, OF hyp [OF sv2]]
  note i3 = planned_version_against_current [rule_format, OF hyp [OF sv3]]
  from i1 tr(1) sha len(1) have c1: "semver_compare ''0.5.0-exp.abcdef'' ''0.5.0'' = Some (- 1)"
    unfolding t by simp
  from i2 tr(2) sha len(2)
  have c2: "semver_compare ''1.0.0-beta-exp.abcdef'' ''1.0.0-beta'' = Some 1"
    unfolding t by simp
  from i3 tr(3) sha len(3) have c3: "semver_compare ''1.2.3+b-exp.abcdef'' ''1.2.3+b'' = Some 0"
    unfolding t by simp
  from sv1 sv2 sv3 c1 c2 c3
    versioned_package_versions [of "''0.5.0''"] versioned_package_versions [of "''1.0.0-beta''"]
    versioned_package_versions [of "''1.2.3+b''"]
  show ?thesis
    by simp
qed

text \<open>
  C3 as the specification states it fails: for the package \<^verbatim>\<open>@x/a-exp\<close> at 0.5.0 the planned
  version \<^verbatim>\<open>0.5.0-exp.abcdef\<close> is strictly below the current version.
\<close>

theorem planned_version_not_older_counterexample:
  "name (descriptor (scenario ''@x'' [] []) ''/repo/packages-exp/a-exp'') = ''@x/a-exp'' \<and>
   version (descriptor (scenario ''@x'' [] []) ''/repo/packages-exp/a-exp'') = Str ''0.5.0'' \<and>
   SemVer ''0.5.0'' = Some \<lparr>major = 0, minor = 5, patch = 0, prerelease = [], build = []\<rparr> \<and>
   fst (updatePackageNamesAndVersions scenario_paths (scenario ''@x'' [] [])) =
     Ok [(''firebase-exp'', Str ''1.2.4''), (''@x/a-exp'', Str ''0.5.0-exp.abcdef''),
         (''@x/b-exp'', Str ''0.5.0-exp.abcdef'')] \<and>
   Map_get [(''firebase-exp'', Str ''1.2.4''), (''@x/a-exp'', Str ''0.5.0-exp.abcdef''),
         (''@x/b-exp'', Str ''0.5.0-exp.abcdef'')] ''@x/a-exp'' = Str ''0.5.0-exp.abcdef'' \<and>
   semver_compare ''0.5.0-exp.abcdef'' ''0.5.0'' = Some (- 1)"
proof -
  have "Map_get [(''firebase-exp'', Str ''1.2.4''), (''@x/a-exp'', Str ''0.5.0-exp.abcdef''),
         (''@x/b-exp'', Str ''0.5.0-exp.abcdef'')] ''@x/a-exp'' = Str ''0.5.0-exp.abcdef''"
    by (simp add: Map_get_def)
  moreover have "semver_compare ''0.5.0-exp.abcdef'' ''0.5.0'' = Some (- 1)"
    by (simp add: semver_compare_def compareMain_def comparePre_def compare_numbers_def
        semver_eval)
  moreover have "SemVer ''0.5.0'' =
      Some \<lparr>major = 0, minor = 5, patch = 0, prerelease = [], build = []\<rparr>"
    by (simp add: semver_eval)
  ultimately show ?thesis
    using scenario_versions [of "''@x''" "[]" "[]"]
    by (simp add: scenario_def scenario_files_def descriptor_def)
qed

subsection \<open>Facts about the steps\<close>

lemma extends_refl: "extends P w w"
  unfolding extends_def by (intro exI [of _ "files w"] exI [of _ "[]"]) simp

lemma extends_event: "P e \<Longrightarrow> extends P w (w\<lparr>trace := trace w @ [e]\<rparr>)"
  unfolding extends_def by (intro exI [of _ "files w"] exI [of _ "[e]"]) simp

lemma extends_files: "extends P w (w\<lparr>files := fs\<rparr>)"
  unfolding extends_def by (intro exI [of _ fs] exI [of _ "[]"]) simp

lemma extends_trans:
  assumes "extends P w w1" and "extends P w1 w2"
  shows "extends P w w2"
proof -
  from assms(1) obtain fs1 es1 where
    1: "w1 = w\<lparr>files := fs1, trace := trace w @ es1\<rparr>" "\<forall>e \<in> set es1. P e"
    unfolding extends_def by blast
  from assms(2) obtain fs2 es2 where
    2: "w2 = w1\<lparr>files := fs2, trace := trace w1 @ es2\<rparr>" "\<forall>e \<in> set es2. P e"
    unfolding extends_def by blast
  have "w2 = w\<lparr>files := fs2, trace := trace w @ (es1 @ es2)\<rparr>"
    unfolding 2(1) 1(1) by simp
  moreover have "\<forall>e \<in> set (es1 @ es2). P e"
    using 1(2) 2(2) by auto
  ultimately show ?thesis
    unfolding extends_def by blast
qed

lemma extends_mono: "extends P w w' \<Longrightarrow> (\<And>e. P e \<Longrightarrow> Q e) \<Longrightarrow> extends Q w w'"
  unfolding extends_def by blast

lemma extends_oracles:
  assumes "extends P w w'"
  shows "answers w' = answers w" "spawnFails w' = spawnFails w" "projectRoot w' = projectRoot w"
    "committed w' = committed w" "checkoutFails w' = checkoutFails w"
    "revparseResult w' = revparseResult w" "workspacePackages w' = workspacePackages w"
    "execResult w' = execResult w" "installationsDistExists w' = installationsDistExists w"
    "prepareFirestore w' = prepareFirestore w"
  using assms unfolding extends_def by auto

lemma extends_trace:
  "extends P w w' \<Longrightarrow> \<exists>es. trace w' = trace w @ es \<and> (\<forall>e \<in> set es. P e)"
  unfolding extends_def by auto

lemma emitsD: "emits P m \<Longrightarrow> m w = (r, w') \<Longrightarrow> extends P w w' \<and> (\<forall>c. r \<noteq> Exit c)"
  unfolding emits_def by blast

lemma emits_return: "emits P (return x)"
  by (simp add: emits_def return_def extends_refl)

lemma emits_throw: "emits P (throw e)"
  by (simp add: emits_def throw_def extends_refl)

lemma emits_await:
  assumes "emits P m" and "\<And>x. emits P (k x)"
  shows "emits P (await m k)"
  unfolding emits_def
proof (intro allI impI)
  fix w r w'
  assume run: "await m k w = (r, w')"
  obtain r1 w1 where m: "m w = (r1, w1)"
    by (cases "m w")
  from emitsD [OF assms(1) m] have 1: "extends P w w1" "\<forall>c. r1 \<noteq> Exit c"
    by auto
  show "extends P w w' \<and> (\<forall>c. r \<noteq> Exit c)"
  proof (cases r1)
    case (Ok x)
    with run m have "k x w1 = (r, w')"
      by (simp add: await_def)
    from emitsD [OF assms(2) this] 1(1) show ?thesis
      using extends_trans by blast
  next
    case (Throw e)
    with run m 1 show ?thesis
      by (auto simp: await_def)
  next
    case (Exit c)
    with 1 show ?thesis by simp
  qed
qed

lemma emits_emit: "P e \<Longrightarrow> emits P (emit e)"
  by (simp add: emits_def emit_def extends_event)

lemma emits_readPackageJson: "emits P (readPackageJson p)"
  by (auto simp: emits_def readPackageJson_def extends_refl split: option.splits)

lemma emits_writeFile: "P (WriteFile f) \<Longrightarrow> emits P (writeFile f pj)"
  unfolding emits_def writeFile_def extends_def
  by (auto intro!: exI [of _ "(files _)(f \<mapsto> pj)"] exI [of _ "[WriteFile f]"])

lemma emits_spawn: "P (Spawn cmd args cwd) \<Longrightarrow> emits P (spawn cmd args cwd)"
  by (auto simp: emits_def spawn_def Let_def extends_event split: if_splits)

lemma emits_exec: "P (Exec cmd) \<Longrightarrow> emits P (exec cmd)"
  by (auto simp: emits_def exec_def Let_def extends_event split: sum.splits)

lemma emits_prompt: "P (Prompt q) \<Longrightarrow> emits P (prompt q)"
  by (auto simp: emits_def prompt_def extends_event)

lemma emits_git_revparse: "P (GitRevparse a) \<Longrightarrow> emits P (git_revparse a)"
  by (auto simp: emits_def git_revparse_def Let_def extends_event split: sum.splits)

lemma emits_git_checkout: "P GitCheckout \<Longrightarrow> emits P git_checkout"
proof -
  assume P: "P GitCheckout"
  have "extends P w (w\<lparr>trace := trace w @ [GitCheckout], files := fs\<rparr>)" for w fs
    unfolding extends_def using P
    by (intro exI [of _ fs] exI [of _ "[GitCheckout]"]) simp
  moreover have "extends P w (w\<lparr>trace := trace w @ [GitCheckout]\<rparr>)" for w
    using P by (rule extends_event)
  ultimately show ?thesis
    by (auto simp: emits_def git_checkout_def Let_def split: if_splits)
qed

lemma emits_prepare: "emits P prepareFirestoreForRelease"
  by (auto simp: emits_def prepareFirestoreForRelease_def extends_refl extends_files
      split: sum.splits)

lemma emits_mapWorkspaceToPackages: "emits P (mapWorkspaceToPackages globs)"
  by (simp add: emits_def mapWorkspaceToPackages_def extends_refl)

lemma emits_getCurrentSha: "P (GitRevparse [''--short'', ''HEAD'']) \<Longrightarrow> emits P getCurrentSha"
  unfolding getCurrentSha_def by (intro emits_await emits_git_revparse emits_return)

lemma emits_updatePackageJsons:
  "(\<And>f. P (WriteFile f)) \<Longrightarrow> emits P (updatePackageJsons ps vs opts)"
  by (induction ps) (auto intro!: emits_await emits_return emits_readPackageJson emits_writeFile)

lemma emits_planVersions:
  "(\<And>a. P (GitRevparse a)) \<Longrightarrow> emits P (planVersions ps vs)"
proof (induction ps arbitrary: vs)
  case Nil
  then show ?case by (simp add: emits_return)
next
  case (Cons p ps)
  show ?case
    unfolding planVersions.simps
    by (intro emits_await emits_readPackageJson)
      (auto intro!: emits_await emits_getCurrentSha Cons)
qed

lemma emits_updatePackageNamesAndVersions:
  "(\<And>a. P (GitRevparse a)) \<Longrightarrow> (\<And>f. P (WriteFile f)) \<Longrightarrow>
     emits P (updatePackageNamesAndVersions ps)"
  unfolding updatePackageNamesAndVersions_def
  by (intro emits_await emits_planVersions emits_updatePackageJsons emits_return)

lemma emits_buildPackages:
  assumes "\<And>args cwd. P (Spawn ''yarn'' args cwd)" and "\<And>d. P (Rmdir d)"
  shows "emits P buildPackages"
  unfolding emits_def
proof (intro allI impI)
  fix w r w'
  assume run: "buildPackages w = (r, w')"
  let ?m = "await (spawn ''yarn''
                 [''lerna'', ''run'', ''--scope'', ''@firebase/app'', ''--scope'',
                  ''@firebase/functions'', ''--scope'', ''@firebase/remote-config'', ''--scope'',
                  ''@firebase/util'', ''--scope'', ''@firebase/component'', ''--scope'',
                  ''@firebase/logger'', ''--scope'', ''@firebase/webchannel-wrapper'', ''build'']
                 (projectRoot w)) (\<lambda>_.
        await (spawn ''yarn''
                 [''lerna'', ''run'', ''--scope'', ''@firebase/*-exp'', ''--scope'',
                  ''@firebase/*-compat'', ''build:release'']
                 (projectRoot w)) (\<lambda>_.
        await (spawn ''yarn''
                 [''lerna'', ''run'', ''--scope'', ''@firebase/firestore'', ''prebuild'']
                 (projectRoot w)) (\<lambda>_.
        await (spawn ''yarn''
                 [''lerna'', ''run'', ''--scope'', ''@firebase/firestore'', ''build:exp:release'']
                 (projectRoot w)) (\<lambda>_.
        await (if installationsDistExists w
               then emit (Rmdir (projectRoot w @ ''/packages/installations/dist''))
               else return ()) (\<lambda>_.
        spawn ''yarn'' [''lerna'', ''run'', ''--scope'', ''firebase-exp'', ''build:release'']
          (projectRoot w))))))"
  have "emits P ?m"
    by (intro emits_await emits_spawn assms) (auto intro: emits_emit emits_return assms)
  moreover from run have "?m w = (r, w')"
    by (simp add: buildPackages_def Let_def)
  ultimately show "extends P w w' \<and> (\<forall>c. r \<noteq> Exit c)"
    by (rule emitsD)
qed

lemma emits_reset:
  "P GitCheckout \<Longrightarrow> (\<And>f. P (WriteFile f)) \<Longrightarrow>
     emits P (resetWorkingTreeAndBumpVersions ps vs)"
  unfolding resetWorkingTreeAndBumpVersions_def
  by (intro emits_await emits_git_checkout emits_updatePackageJsons)

subsection \<open>Facts about the publication\<close>

lemma publishPackage_run:
  "publishPackage p d w =
     ((if publish_fails d w p then Throw (SpawnFailed ''npm'' (publish_args d) p) else Ok ()),
      w\<lparr>trace := trace w @ [Spawn ''npm'' (publish_args d) p]\<rparr>)"
  by (simp add: publishPackage_def spawn_def publish_fails_def publish_args_def Let_def)

lemma taskArray_cases:
  "taskArray ps d w = (r, w') \<Longrightarrow>
     w' = w \<and>
     ((\<forall>p \<in> set ps. files w (p @ ''/package.json'') \<noteq> None) \<and>
        r = Ok (map (\<lambda>p. (title w p, publishPackage p d)) ps) \<or>
      (\<exists>p. r = Throw (NotFound p)))"
proof (induction ps arbitrary: r w')
  case Nil
  then show ?case by (auto simp: return_def)
next
  case (Cons p ps)
  show ?case
  proof (cases "files w (p @ ''/package.json'')")
    case None
    with Cons.prems show ?thesis
      by (auto simp: readPackageJson_def await_def)
  next
    case (Some pj)
    obtain r1 w1 where 1: "taskArray ps d w = (r1, w1)"
      by (cases "taskArray ps d w")
    from Cons.IH [OF 1] have w1: "w1 = w" and
      r1: "(\<forall>p \<in> set ps. files w (p @ ''/package.json'') \<noteq> None) \<and>
            r1 = Ok (map (\<lambda>p. (title w p, publishPackage p d)) ps) \<or>
           (\<exists>p. r1 = Throw (NotFound p))"
      by auto
    from Some have t: "title w p = name pj @ ''@'' @ to_string (version pj)"
      by (simp add: title_def descriptor_def)
    from r1 show ?thesis
    proof
      assume "(\<forall>p \<in> set ps. files w (p @ ''/package.json'') \<noteq> None) \<and>
            r1 = Ok (map (\<lambda>p. (title w p, publishPackage p d)) ps)"
      with Cons.prems Some 1 w1 t show ?thesis
        by (auto simp: readPackageJson_def await_def return_def)
    next
      assume "\<exists>p. r1 = Throw (NotFound p)"
      with Cons.prems Some 1 w1 show ?thesis
        by (auto simp: readPackageJson_def await_def return_def)
    qed
  qed
qed

lemma publish_fails_trace [simp]:
  "publish_fails d (w\<lparr>trace := t\<rparr>) = publish_fails d w"
  by (simp add: publish_fails_def fun_eq_iff)

lemma Listr_tasks_run:
  "Listr_tasks (map (\<lambda>p. (t p, publishPackage p d)) ps) errs w =
     (Ok (errs @ publish_errors d w ps),
      w\<lparr>trace := trace w @
          concat (map (\<lambda>p. [Spawn ''npm'' (publish_args d) p,
                             if publish_fails d w p then TaskFailed (t p)
                             else TaskCompleted (t p)]) ps)\<rparr>)"
proof (induction ps arbitrary: errs w)
  case Nil
  then show ?case by (simp add: return_def publish_errors_def)
next
  case (Cons p ps)
  have step: "publishPackage p d w =
     ((if publish_fails d w p then Throw (SpawnFailed ''npm'' (publish_args d) p) else Ok ()),
      w\<lparr>trace := trace w @ [Spawn ''npm'' (publish_args d) p]\<rparr>)"
    by (rule publishPackage_run)
  show ?case
  proof (cases "publish_fails d w p")
    case True
    then show ?thesis
      by (simp add: step Cons.IH publish_errors_def)
  next
    case False
    then show ?thesis
      by (simp add: step Cons.IH publish_errors_def)
  qed
qed

lemma taskArray_Ok:
  "\<forall>p \<in> set ps. files w (p @ ''/package.json'') \<noteq> None \<Longrightarrow>
     taskArray ps d w = (Ok (map (\<lambda>p. (title w p, publishPackage p d)) ps), w)"
proof (induction ps)
  case Nil
  then show ?case by (simp add: return_def)
next
  case (Cons p ps)
  then obtain pj where "files w (p @ ''/package.json'') = Some pj"
    by auto
  with Cons show ?case
    by (simp add: readPackageJson_def await_def return_def title_def descriptor_def)
qed

lemma publishToNpm_cases:
  assumes "publishToNpm ps d w = (r, w')"
  shows "(w' = w \<and> (\<exists>p. r = Throw (NotFound p))) \<or>
     (w' = w\<lparr>trace := trace w @ publish_events d w ps\<rparr> \<and>
      r = (if publish_errors d w ps = [] then Ok ()
           else Throw (ListrError (publish_errors d w ps))))"
proof -
  obtain r1 w1 where 1: "taskArray ps d w = (r1, w1)"
    by (cases "taskArray ps d w")
  from taskArray_cases [OF 1] have w1: "w1 = w" and
    r1: "r1 = Ok (map (\<lambda>p. (title w p, publishPackage p d)) ps) \<or> (\<exists>p. r1 = Throw (NotFound p))"
    by auto
  from r1 show ?thesis
  proof
    assume ok: "r1 = Ok (map (\<lambda>p. (title w p, publishPackage p d)) ps)"
    with assms 1 w1 show ?thesis
      by (auto simp: publishToNpm_def await_def Listr_run_def Listr_tasks_run throw_def
          return_def publish_events_def)
  next
    assume "\<exists>p. r1 = Throw (NotFound p)"
    with assms 1 w1 show ?thesis
      by (auto simp: publishToNpm_def await_def)
  qed
qed

lemma publishToNpm_run:
  assumes "\<forall>p \<in> set ps. files w (p @ ''/package.json'') \<noteq> None"
  shows "publishToNpm ps d w =
     ((if publish_errors d w ps = [] then Ok () else Throw (ListrError (publish_errors d w ps))),
      w\<lparr>trace := trace w @ publish_events d w ps\<rparr>)"
proof -
  from taskArray_Ok [OF assms] show ?thesis
    by (simp add: publishToNpm_def await_def Listr_run_def Listr_tasks_run throw_def
        return_def publish_events_def)
qed

lemma publish_errors_Nil: "publish_errors d w ps = [] \<longleftrightarrow> (\<forall>p \<in> set ps. \<not> publish_fails d w p)"
  by (auto simp: publish_errors_def filter_empty_conv)

lemma publish_events_spawns:
  "filter is_spawn (publish_events d w ps) = map (\<lambda>p. Spawn ''npm'' (publish_args d) p) ps"
  by (induction ps) (auto simp: publish_events_def is_spawn_def)

subsection \<open>The paths through \<^verbatim>\<open>publishExpPackages\<close>\<close>

lemma await_assoc: "await (await m k) h = await m (\<lambda>x. await (k x) h)"
  by (auto simp: await_def fun_eq_iff split: prod.splits outcome.splits)

lemma await_return: "await (return x) k = k x"
  by (simp add: await_def return_def fun_eq_iff)

lemma await_OkE:
  assumes "await m k w = (Ok x, w')"
  obtains y w1 where "m w = (Ok y, w1)" "k y w1 = (Ok x, w')"
  using assms by (auto simp: await_def split: prod.splits outcome.splits)

lemma await_emits_cases:
  assumes "emits P m" and "await m k w = (r, w')"
  obtains (throw) e where "r = Throw e" "extends P w w'"
  | (ok) x w1 where "m w = (Ok x, w1)" "extends P w w1" "k x w1 = (r, w')"
proof -
  obtain r1 w1 where m: "m w = (r1, w1)"
    by (cases "m w")
  from emitsD [OF assms(1) m] have 1: "extends P w w1" "\<forall>c. r1 \<noteq> Exit c"
    by auto
  show thesis
  proof (cases r1)
    case (Ok x)
    with m assms(2) have "k x w1 = (r, w')"
      by (simp add: await_def)
    with Ok m 1 show ?thesis
      by (intro ok) auto
  next
    case (Throw e)
    with m assms(2) have "r = Throw e" "w' = w1"
      by (simp_all add: await_def)
    with 1 show ?thesis
      by (intro throw) auto
  next
    case (Exit c)
    with 1 show ?thesis by simp
  qed
qed

lemma try_block_gates:
  "publishExpPackages_try d w =
     await (planning w) (\<lambda>(pp, vs). publish_gate d pp vs) w"
  unfolding publishExpPackages_try_def planning_def publish_gate_def reset_gate_def
    push_gate_def Let_def await_assoc await_return prod.case
  by (rule refl)

lemma planning_event_simps [simp]:
  "planning_event (Spawn cmd args cwd) \<longleftrightarrow> cmd = ''yarn''"
  "planning_event (Rmdir dir)" "planning_event (GitRevparse a)" "planning_event (WriteFile f)"
  "\<not> planning_event (Prompt q)" "\<not> planning_event (Exec c)" "\<not> planning_event GitCheckout"
  "\<not> planning_event (TaskCompleted t)" "\<not> planning_event (TaskFailed t)"
  "\<not> planning_event (ConsoleError err)"
  by (auto simp: planning_event_def)

lemma reset_event_simps [simp]:
  "\<not> reset_event (Spawn cmd args cwd)"
  "\<not> reset_event (Rmdir dir)" "\<not> reset_event (GitRevparse a)" "reset_event (WriteFile f)"
  "\<not> reset_event (Prompt q)" "\<not> reset_event (Exec c)" "reset_event GitCheckout"
  "\<not> reset_event (TaskCompleted t)" "\<not> reset_event (TaskFailed t)"
  "\<not> reset_event (ConsoleError err)"
  by (auto simp: reset_event_def)

lemma emits_planning: "emits planning_event (planning w0)"
  unfolding planning_def
  by (intro emits_await emits_prepare emits_buildPackages emits_mapWorkspaceToPackages
      emits_updatePackageNamesAndVersions emits_return) simp_all

lemma planning_paths:
  assumes "planning w w = (Ok (pp, vs), w1)"
  shows "pp = working_set w"
proof -
  from assms [unfolded planning_def] obtain u1 v1 where
    1: "prepareFirestoreForRelease w = (Ok u1, v1)" and
    2: "await buildPackages (\<lambda>_.
          await (mapWorkspaceToPackages [projectRoot w @ ''/packages-exp/*'']) (\<lambda>paths.
          await (updatePackageNamesAndVersions (paths @ [projectRoot w @ ''/packages/firestore'']))
            (\<lambda>vs. return (paths @ [projectRoot w @ ''/packages/firestore''], vs)))) v1
        = (Ok (pp, vs), w1)"
    by (rule await_OkE)
  from 2 obtain u2 v2 where
    3: "buildPackages v1 = (Ok u2, v2)" and
    4: "await (mapWorkspaceToPackages [projectRoot w @ ''/packages-exp/*'']) (\<lambda>paths.
          await (updatePackageNamesAndVersions (paths @ [projectRoot w @ ''/packages/firestore'']))
            (\<lambda>vs. return (paths @ [projectRoot w @ ''/packages/firestore''], vs))) v2
        = (Ok (pp, vs), w1)"
    by (rule await_OkE)
  from emitsD [OF emits_prepare 1] emitsD [OF emits_buildPackages 3, of planning_event]
  have "extends planning_event w v2"
    using extends_trans by (metis planning_event_simps(1,2))
  then have wp: "workspacePackages v2 = workspacePackages w"
    by (rule extends_oracles)
  from 4 obtain paths v3 where
    5: "mapWorkspaceToPackages [projectRoot w @ ''/packages-exp/*''] v2 = (Ok paths, v3)" and
    6: "await (updatePackageNamesAndVersions (paths @ [projectRoot w @ ''/packages/firestore'']))
            (\<lambda>vs. return (paths @ [projectRoot w @ ''/packages/firestore''], vs)) v3
        = (Ok (pp, vs), w1)"
    by (rule await_OkE)
  from 5 wp have paths: "paths = workspacePackages w [projectRoot w @ ''/packages-exp/*'']"
    by (auto simp: mapWorkspaceToPackages_def)
  from 6 have "pp = paths @ [projectRoot w @ ''/packages/firestore'']"
    by (auto simp: await_def return_def split: prod.splits outcome.splits)
  with paths show ?thesis
    by (simp add: working_set_def)
qed

lemma push_gate_run:
  "push_gate d v =
     (if d then (Ok (), v)
      else ((if answers v ''commitAndPush''
             then Throw (TypeError ''commitAndPush is not a function'') else Ok ()),
            v\<lparr>trace := trace v @ [Prompt ''commitAndPush'']\<rparr>))"
  by (simp add: push_gate_def await_def prompt_def throw_def return_def)

lemma publish_errors_oracle:
  "spawnFails v = spawnFails w \<Longrightarrow> publish_errors d v ps = publish_errors d w ps"
  by (simp add: publish_errors_def publish_fails_def [abs_def])

lemma reset_gate_cases:
  assumes "reset_gate d pp vs v = (r, w')"
  obtains (rg_declined) "\<not> answers v ''resetWorkingTree''" "r = Exit 0"
      "trace w' = trace v @ [Prompt ''resetWorkingTree'']"
  | (rg_failed) rs e where "answers v ''resetWorkingTree''" "r = Throw e"
      "trace w' = trace v @ [Prompt ''resetWorkingTree''] @ rs" "\<forall>x \<in> set rs. reset_event x"
  | (rg_dry) rs where "answers v ''resetWorkingTree''" "d" "r = Ok ()"
      "trace w' = trace v @ [Prompt ''resetWorkingTree''] @ rs" "\<forall>x \<in> set rs. reset_event x"
  | (rg_push_declined) rs where "answers v ''resetWorkingTree''" "\<not> d"
      "\<not> answers v ''commitAndPush''" "r = Ok ()"
      "trace w' = trace v @ [Prompt ''resetWorkingTree''] @ rs @ [Prompt ''commitAndPush'']"
      "\<forall>x \<in> set rs. reset_event x"
  | (rg_push_accepted) rs where "answers v ''resetWorkingTree''" "\<not> d"
      "answers v ''commitAndPush''" "r = Throw (TypeError ''commitAndPush is not a function'')"
      "trace w' = trace v @ [Prompt ''resetWorkingTree''] @ rs @ [Prompt ''commitAndPush'']"
      "\<forall>x \<in> set rs. reset_event x"
proof (cases "answers v ''resetWorkingTree''")
  case False
  with assms have "r = Exit 0" "trace w' = trace v @ [Prompt ''resetWorkingTree'']"
    by (auto simp: reset_gate_def await_def prompt_def process_exit_def)
  with False show ?thesis
    by (rule rg_declined)
next
  case True
  let ?v1 = "v\<lparr>trace := trace v @ [Prompt ''resetWorkingTree'']\<rparr>"
  let ?reset = "resetWorkingTreeAndBumpVersions
                   (filter (\<lambda>p. sublist FIREBASE_UMBRELLA_PACKAGE_NAME p) pp)
                   (Map_set [] FIREBASE_UMBRELLA_PACKAGE_NAME
                      (Map_get vs FIREBASE_UMBRELLA_PACKAGE_NAME))"
  from True assms have run: "await ?reset (\<lambda>_. push_gate d) ?v1 = (r, w')"
    by (simp add: reset_gate_def await_def prompt_def)
  have em: "emits reset_event ?reset"
    by (rule emits_reset) simp_all
  from em run show ?thesis
  proof (cases rule: await_emits_cases)
    case (throw e)
    from extends_trace [OF throw(2)] obtain rs where
      "trace w' = trace v @ [Prompt ''resetWorkingTree''] @ rs" "\<forall>x \<in> set rs. reset_event x"
      by auto
    with True throw(1) show ?thesis
      by (intro rg_failed)
  next
    case (ok x v2)
    from extends_trace [OF ok(2)] obtain rs where
      rs: "trace v2 = trace v @ [Prompt ''resetWorkingTree''] @ rs" "\<forall>x \<in> set rs. reset_event x"
      by auto
    from extends_oracles(1) [OF ok(2)] have ans: "answers v2 = answers v"
      by simp
    show ?thesis
    proof (cases d)
      case True
      with ok(3) have "r = Ok ()" "w' = v2"
        by (simp_all add: push_gate_run)
      with rs True \<open>answers v ''resetWorkingTree''\<close> show ?thesis
        by (intro rg_dry) auto
    next
      case False
      show ?thesis
      proof (cases "answers v ''commitAndPush''")
        case True
        with False ok(3) ans have "r = Throw (TypeError ''commitAndPush is not a function'')"
          "trace w' = trace v2 @ [Prompt ''commitAndPush'']"
          by (auto simp: push_gate_run)
        with rs True False \<open>answers v ''resetWorkingTree''\<close> show ?thesis
          by (intro rg_push_accepted) auto
      next
        case no: False
        with False ok(3) ans have "r = Ok ()"
          "trace w' = trace v2 @ [Prompt ''commitAndPush'']"
          by (auto simp: push_gate_run)
        with rs no False \<open>answers v ''resetWorkingTree''\<close> show ?thesis
          by (intro rg_push_declined) auto
      qed
    qed
  qed
qed

lemma try_paths:
  assumes run: "publishExpPackages_try d w = (r, w')"
  obtains
    (planning_failed) e es where "r = Throw e" "trace w' = trace w @ es"
      "\<forall>x \<in> set es. planning_event x"
  | (version_declined) es where "\<not> answers w ''versionCheck''" "r = Throw VersionCheckFailed"
      "trace w' = trace w @ es @ [Prompt ''versionCheck'']" "\<forall>x \<in> set es. planning_event x"
  | (unreadable) es p where "answers w ''versionCheck''" "r = Throw (NotFound p)"
      "trace w' = trace w @ es @ [Prompt ''versionCheck'']" "\<forall>x \<in> set es. planning_event x"
  | (publish_failed) es v where "answers w ''versionCheck''"
      "publish_errors d w (working_set w) \<noteq> []"
      "r = Throw (ListrError (publish_errors d w (working_set w)))"
      "trace w' = trace w @ es @ [Prompt ''versionCheck''] @ publish_events d v (working_set w)"
      "\<forall>x \<in> set es. planning_event x"
  | (reset_declined) es v where "answers w ''versionCheck''"
      "publish_errors d w (working_set w) = []" "\<not> answers w ''resetWorkingTree''" "r = Exit 0"
      "trace w' = trace w @ es @ [Prompt ''versionCheck''] @ publish_events d v (working_set w) @
         [Prompt ''resetWorkingTree'']"
      "\<forall>x \<in> set es. planning_event x"
  | (reset_failed) es v rs e where "answers w ''versionCheck''"
      "publish_errors d w (working_set w) = []" "answers w ''resetWorkingTree''" "r = Throw e"
      "trace w' = trace w @ es @ [Prompt ''versionCheck''] @ publish_events d v (working_set w) @
         [Prompt ''resetWorkingTree''] @ rs"
      "\<forall>x \<in> set es. planning_event x" "\<forall>x \<in> set rs. reset_event x"
  | (dry_run_done) es v rs where "answers w ''versionCheck''"
      "publish_errors d w (working_set w) = []" "answers w ''resetWorkingTree''" "d" "r = Ok ()"
      "trace w' = trace w @ es @ [Prompt ''versionCheck''] @ publish_events d v (working_set w) @
         [Prompt ''resetWorkingTree''] @ rs"
      "\<forall>x \<in> set es. planning_event x" "\<forall>x \<in> set rs. reset_event x"
  | (push_declined) es v rs where "answers w ''versionCheck''"
      "publish_errors d w (working_set w) = []" "answers w ''resetWorkingTree''" "\<not> d"
      "\<not> answers w ''commitAndPush''" "r = Ok ()"
      "trace w' = trace w @ es @ [Prompt ''versionCheck''] @ publish_events d v (working_set w) @
         [Prompt ''resetWorkingTree''] @ rs @ [Prompt ''commitAndPush'']"
      "\<forall>x \<in> set es. planning_event x" "\<forall>x \<in> set rs. reset_event x"
  | (push_accepted) es v rs where "answers w ''versionCheck''"
      "publish_errors d w (working_set w) = []" "answers w ''resetWorkingTree''" "\<not> d"
      "answers w ''commitAndPush''" "r = Throw (TypeError ''commitAndPush is not a function'')"
      "trace w' = trace w @ es @ [Prompt ''versionCheck''] @ publish_events d v (working_set w) @
         [Prompt ''resetWorkingTree''] @ rs @ [Prompt ''commitAndPush'']"
      "\<forall>x \<in> set es. planning_event x" "\<forall>x \<in> set rs. reset_event x"
proof -
  from run have run': "await (planning w) (\<lambda>(pp, vs). publish_gate d pp vs) w = (r, w')"
    by (simp add: try_block_gates)
  from emits_planning run' show thesis
  proof (cases rule: await_emits_cases)
    case (throw e)
    from extends_trace [OF throw(2)] throw(1) show ?thesis
      by (auto intro: planning_failed)
  next
    case (ok x v1)
    obtain pp vs where x: "x = (pp, vs)"
      by (cases x)
    with ok(1) have pp: "pp = working_set w"
      by (simp add: planning_paths)
    from extends_trace [OF ok(2)] obtain es where
      es: "trace v1 = trace w @ es" "\<forall>x \<in> set es. planning_event x"
      by auto
    note orc = extends_oracles [OF ok(2)]
    let ?v2 = "v1\<lparr>trace := trace v1 @ [Prompt ''versionCheck'']\<rparr>"
    show ?thesis
    proof (cases "answers w ''versionCheck''")
      case False
      with ok(3) x orc(1) have "r = Throw VersionCheckFailed"
        "trace w' = trace v1 @ [Prompt ''versionCheck'']"
        by (auto simp: publish_gate_def await_def prompt_def throw_def)
      with False es show ?thesis
        by (intro version_declined) auto
    next
      case True
      with ok(3) x orc(1) pp
      have gate: "await (publishToNpm (working_set w) d) (\<lambda>_. reset_gate d (working_set w) vs) ?v2
          = (r, w')"
        by (simp add: publish_gate_def await_def prompt_def)
      obtain r3 v3 where pub: "publishToNpm (working_set w) d ?v2 = (r3, v3)"
        by (cases "publishToNpm (working_set w) d ?v2")
      have errs: "publish_errors d ?v2 (working_set w) = publish_errors d w (working_set w)"
        by (rule publish_errors_oracle) (simp add: orc)
      from publishToNpm_cases [OF pub] show ?thesis
      proof
        assume "v3 = ?v2 \<and> (\<exists>p. r3 = Throw (NotFound p))"
        then obtain p where "v3 = ?v2" "r3 = Throw (NotFound p)"
          by blast
        with gate pub have "r = Throw (NotFound p)" "trace w' = trace v1 @ [Prompt ''versionCheck'']"
          by (auto simp: await_def)
        with True es show ?thesis
          by (intro unreadable) auto
      next
        assume a: "v3 = ?v2\<lparr>trace := trace ?v2 @ publish_events d ?v2 (working_set w)\<rparr> \<and>
          r3 = (if publish_errors d ?v2 (working_set w) = [] then Ok ()
                else Throw (ListrError (publish_errors d ?v2 (working_set w))))"
        then have v3: "trace v3 = trace w @ es @ [Prompt ''versionCheck''] @
            publish_events d ?v2 (working_set w)"
          using es by simp
        from a have ans3: "answers v3 = answers w"
          using orc(1) by simp
        show ?thesis
        proof (cases "publish_errors d w (working_set w) = []")
          case False
          with a errs gate pub have "r = Throw (ListrError (publish_errors d w (working_set w)))"
            "w' = v3"
            by (auto simp: await_def)
          with True False v3 es(2) show ?thesis
            by (intro publish_failed) auto
        next
          case none: True
          with a errs gate pub have "reset_gate d (working_set w) vs v3 = (r, w')"
            by (auto simp: await_def)
          then show ?thesis
          proof (cases rule: reset_gate_cases)
            case rg_declined
            with True none v3 es(2) ans3 show ?thesis
              by (intro reset_declined [of es ?v2]) auto
          next
            case (rg_failed rs e)
            with True none v3 es(2) ans3 show ?thesis
              by (intro reset_failed [of e es ?v2 rs]) auto
          next
            case (rg_dry rs)
            with True none v3 es(2) ans3 show ?thesis
              by (intro dry_run_done [of es ?v2 rs]) auto
          next
            case (rg_push_declined rs)
            with True none v3 es(2) ans3 show ?thesis
              by (intro push_declined [of es ?v2 rs]) auto
          next
            case (rg_push_accepted rs)
            with True none v3 es(2) ans3 show ?thesis
              by (intro push_accepted [of es ?v2 rs]) auto
          qed
        qed
      qed
    qed
  qed
qed

lemma removeExp_firestore:
  "removeExpInPackageName ''@firebase/firestore'' = ''@firebase/firestore''"
  by code_simp

lemmas run_eval = publishExpPackages_def publishExpPackages_try_def
  prepareFirestoreForRelease_def buildPackages_def spawn_def mapWorkspaceToPackages_def
  updatePackageNamesAndVersions_def readPackageJson_def getCurrentSha_run inc_patch_1_2_3
  Map_set_def Map_get_def writeFile_def updatePackageJson_def rewriteDependencies_def or_empty_def
  removeExp_examples removeExp_firestore prompt_def publishToNpm_def Listr_run_def
  publishPackage_def resetWorkingTreeAndBumpVersions_def git_checkout_def await_def return_def
  throw_def process_exit_def emit_def scenario_def scenario_files_def scenario_paths_def
  FIREBASE_UMBRELLA_PACKAGE_NAME_def sublist_code prefix_code trim_def is_white_space_def Let_def

lemma run_all_yes:
  "fst (publishExpPackages False (scenario ''@firebase'' [] [])) = Exit 1"
  by (simp add: run_eval)

subsection \<open>What every run does\<close>

lemma publishExpPackages_run:
  assumes "publishExpPackages_try d w = (r, w')"
  shows "publishExpPackages d w =
     (case r of Throw err \<Rightarrow> (Exit 1, w'\<lparr>trace := trace w' @ [ConsoleError err]\<rparr>)
      | _ \<Rightarrow> (r, w'))"
  using assms by (simp add: publishExpPackages_def split: outcome.splits)

lemma trace_publishExpPackages:
  assumes "publishExpPackages_try d w = (r, w')"
  shows "set (trace (snd (publishExpPackages d w))) =
     set (trace w') \<union> (case r of Throw err \<Rightarrow> {ConsoleError err} | _ \<Rightarrow> {})"
  using publishExpPackages_run [OF assms] by (auto split: outcome.splits)

lemma exit_code_run:
  assumes "publishExpPackages_try d w = (r, w')"
  shows "exit_code d w = (case r of Ok _ \<Rightarrow> 0 | Throw _ \<Rightarrow> 1 | Exit c \<Rightarrow> c)"
  using publishExpPackages_run [OF assms] by (auto simp: exit_code_def split: outcome.splits)

lemma not_in_publish_events [simp]:
  "Prompt q \<notin> set (publish_events d v ps)" "Exec c \<notin> set (publish_events d v ps)"
  "GitCheckout \<notin> set (publish_events d v ps)"
  by (auto simp: publish_events_def)

lemma spawn_in_publish_events_iff [simp]:
  "Spawn cmd a p \<in> set (publish_events d v ps) \<longleftrightarrow>
     cmd = ''npm'' \<and> a = publish_args d \<and> p \<in> set ps"
  by (auto simp: publish_events_def)

lemma exit_only_zero:
  assumes "publishExpPackages_try d w = (Exit c, w')"
  shows "c = 0"
  using assms by (cases rule: try_paths) auto

lemma reset_declined_exits:
  assumes "publishExpPackages_try d w = (r, w')" and "trace w = []"
    and "Prompt ''resetWorkingTree'' \<in> set (trace w')" and "\<not> answers w ''resetWorkingTree''"
  shows "r = Exit 0"
  using assms by (cases rule: try_paths) auto

lemma version_declined_throws:
  assumes "publishExpPackages_try d w = (r, w')" and "trace w = []"
    and "Prompt ''versionCheck'' \<in> set (trace w')" and "\<not> answers w ''versionCheck''"
  shows "r = Throw VersionCheckFailed"
  using assms by (cases rule: try_paths) auto

lemma failed_publish_halts:
  assumes "publishExpPackages_try d w = (r, w')" and "trace w = []"
    and "Spawn ''npm'' (publish_args d) p \<in> set (trace w')" and "publish_fails d w p"
  shows "r = Throw (ListrError (publish_errors d w (working_set w))) \<and>
     Prompt ''resetWorkingTree'' \<notin> set (trace w') \<and>
     (\<forall>q \<in> set (working_set w). Spawn ''npm'' (publish_args d) q \<in> set (trace w'))"
  using assms
  by (cases rule: try_paths) (auto simp: publish_errors_Nil)

lemma reset_prompt_after_success:
  assumes "publishExpPackages_try d w = (r, w')" and "trace w = []"
    and "Prompt ''resetWorkingTree'' \<in> set (trace w')"
  shows "\<forall>q \<in> set (working_set w).
     \<not> publish_fails d w q \<and> Spawn ''npm'' (publish_args d) q \<in> set (trace w')"
  using assms
  by (cases rule: try_paths) (auto simp: publish_errors_Nil)

lemma push_accepted_throws:
  assumes "publishExpPackages_try d w = (r, w')" and "trace w = []"
    and "Prompt ''commitAndPush'' \<in> set (trace w')" and "answers w ''commitAndPush''"
  shows "r = Throw (TypeError ''commitAndPush is not a function'')"
  using assms by (cases rule: try_paths) auto

lemma never_exec:
  assumes "publishExpPackages_try d w = (r, w')" and "trace w = []"
  shows "Exec c \<notin> set (trace w')"
  using assms by (cases rule: try_paths) auto

subsection \<open>Runs of the scenario\<close>

lemma scenario_trace_empty [simp]: "trace (scenario scope declined failing) = []"
  by (simp add: scenario_def)

lemma run_reset_declined:
  "Prompt ''resetWorkingTree'' \<in>
     set (trace (snd (publishExpPackages False (scenario ''@firebase'' [''resetWorkingTree''] []))))"
  by (simp add: run_eval)

lemma run_version_declined:
  "Prompt ''versionCheck'' \<in>
     set (trace (snd (publishExpPackages False (scenario ''@firebase'' [''versionCheck''] []))))"
  by (simp add: run_eval)

lemma run_dry:
  "fst (publishExpPackages_try True (scenario ''@firebase'' [] [])) = Ok ()"
  by (simp add: run_eval)

lemma run_publish_failure:
  "trace (snd (publishExpPackages False (scenario ''@firebase'' [] [''/repo/packages-exp/a-exp'']))) =
     [Spawn ''yarn''
        [''lerna'', ''run'', ''--scope'', ''@firebase/app'', ''--scope'', ''@firebase/functions'',
         ''--scope'', ''@firebase/remote-config'', ''--scope'', ''@firebase/util'', ''--scope'',
         ''@firebase/component'', ''--scope'', ''@firebase/logger'', ''--scope'',
         ''@firebase/webchannel-wrapper'', ''build''] ''/repo'',
      Spawn ''yarn''
        [''lerna'', ''run'', ''--scope'', ''@firebase/*-exp'', ''--scope'', ''@firebase/*-compat'',
         ''build:release''] ''/repo'',
      Spawn ''yarn'' [''lerna'', ''run'', ''--scope'', ''@firebase/firestore'', ''prebuild''] ''/repo'',
      Spawn ''yarn''
        [''lerna'', ''run'', ''--scope'', ''@firebase/firestore'', ''build:exp:release''] ''/repo'',
      Spawn ''yarn'' [''lerna'', ''run'', ''--scope'', ''firebase-exp'', ''build:release''] ''/repo'',
      GitRevparse [''--short'', ''HEAD''], GitRevparse [''--short'', ''HEAD''],
      GitRevparse [''--short'', ''HEAD''],
      WriteFile ''/repo/packages-exp/firebase-exp/package.json'',
      WriteFile ''/repo/packages-exp/a-exp/package.json'',
      WriteFile ''/repo/packages-exp/b-exp/package.json'',
      WriteFile ''/repo/packages/firestore/package.json'',
      Prompt ''versionCheck'',
      Spawn ''npm'' [''publish'', ''--access'', ''public'', ''--tag'', ''exp'']
        ''/repo/packages-exp/firebase-exp'',
      TaskCompleted ''firebase@1.2.4'',
      Spawn ''npm'' [''publish'', ''--access'', ''public'', ''--tag'', ''exp'']
        ''/repo/packages-exp/a-exp'',
      TaskFailed ''@firebase/a@0.5.0-exp.abcdef'',
      Spawn ''npm'' [''publish'', ''--access'', ''public'', ''--tag'', ''exp'']
        ''/repo/packages-exp/b-exp'',
      TaskCompleted ''@firebase/b@0.5.0-exp.abcdef'',
      Spawn ''npm'' [''publish'', ''--access'', ''public'', ''--tag'', ''exp'']
        ''/repo/packages/firestore'',
      TaskCompleted ''@firebase/firestore@2.1.6-exp.abcdef'',
      ConsoleError
        (ListrError
          [SpawnFailed ''npm'' [''publish'', ''--access'', ''public'', ''--tag'', ''exp'']
             ''/repo/packages-exp/a-exp''])]"
  by (simp add: run_eval)

lemma run_publish_failure_exit:
  "fst (publishExpPackages False (scenario ''@firebase'' [] [''/repo/packages-exp/a-exp''])) = Exit 1"
  by (simp add: run_eval)

lemma run_all_yes_trace:
  "trace (snd (publishExpPackages False (scenario ''@firebase'' [] []))) =
     [Spawn ''yarn''
        [''lerna'', ''run'', ''--scope'', ''@firebase/app'', ''--scope'', ''@firebase/functions'',
         ''--scope'', ''@firebase/remote-config'', ''--scope'', ''@firebase/util'', ''--scope'',
         ''@firebase/component'', ''--scope'', ''@firebase/logger'', ''--scope'',
         ''@firebase/webchannel-wrapper'', ''build''] ''/repo'',
      Spawn ''yarn''
        [''lerna'', ''run'', ''--scope'', ''@firebase/*-exp'', ''--scope'', ''@firebase/*-compat'',
         ''build:release''] ''/repo'',
      Spawn ''yarn'' [''lerna'', ''run'', ''--scope'', ''@firebase/firestore'', ''prebuild''] ''/repo'',
      Spawn ''yarn''
        [''lerna'', ''run'', ''--scope'', ''@firebase/firestore'', ''build:exp:release''] ''/repo'',
      Spawn ''yarn'' [''lerna'', ''run'', ''--scope'', ''firebase-exp'', ''build:release''] ''/repo'',
      GitRevparse [''--short'', ''HEAD''], GitRevparse [''--short'', ''HEAD''],
      GitRevparse [''--short'', ''HEAD''],
      WriteFile ''/repo/packages-exp/firebase-exp/package.json'',
      WriteFile ''/repo/packages-exp/a-exp/package.json'',
      WriteFile ''/repo/packages-exp/b-exp/package.json'',
      WriteFile ''/repo/packages/firestore/package.json'',
      Prompt ''versionCheck'',
      Spawn ''npm'' [''publish'', ''--access'', ''public'', ''--tag'', ''exp'']
        ''/repo/packages-exp/firebase-exp'',
      TaskCompleted ''firebase@1.2.4'',
      Spawn ''npm'' [''publish'', ''--access'', ''public'', ''--tag'', ''exp'']
        ''/repo/packages-exp/a-exp'',
      TaskCompleted ''@firebase/a@0.5.0-exp.abcdef'',
      Spawn ''npm'' [''publish'', ''--access'', ''public'', ''--tag'', ''exp'']
        ''/repo/packages-exp/b-exp'',
      TaskCompleted ''@firebase/b@0.5.0-exp.abcdef'',
      Spawn ''npm'' [''publish'', ''--access'', ''public'', ''--tag'', ''exp'']
        ''/repo/packages/firestore'',
      TaskCompleted ''@firebase/firestore@2.1.6-exp.abcdef'',
      Prompt ''resetWorkingTree'', GitCheckout,
      WriteFile ''/repo/packages-exp/firebase-exp/package.json'',
      Prompt ''commitAndPush'',
      ConsoleError (TypeError ''commitAndPush is not a function'')]"
  by (simp add: run_eval)

subsection \<open>The workflow\<close>

text \<open>
  C6. Every error that the \<^verbatim>\<open>try\<close> block throws is caught: it is logged with
  \<^verbatim>\<open>console.error\<close>, as the last event of the run, and the process exits with
  \<^verbatim>\<open>process.exit(1)\<close>; no error leaves \<^verbatim>\<open>publishExpPackages\<close>. In every other run the
  \<^verbatim>\<open>catch\<close> block does nothing and the exit code is 0: the block has returned, or it has
  called \<^verbatim>\<open>process.exit(0)\<close>. When the operator is asked whether to reset the working tree
  and declines, the process exits with code 0; when the operator is asked to confirm the
  versions and declines, the error \<^verbatim>\<open>Version check failed\<close> is logged and the process exits
  with code 1.
\<close>

theorem exit_codes:
  "fst (publishExpPackages d w) =
     (case fst (publishExpPackages_try d w) of
        Throw err \<Rightarrow> Exit 1 | Exit c \<Rightarrow> Exit 0 | Ok u \<Rightarrow> Ok u) \<and>
   exit_code d w = (case fst (publishExpPackages_try d w) of Throw err \<Rightarrow> 1 | _ \<Rightarrow> 0) \<and>
   (\<forall>err. fst (publishExpPackages_try d w) = Throw err \<longrightarrow>
      fst (publishExpPackages d w) = Exit 1 \<and> exit_code d w = 1 \<and>
      trace (snd (publishExpPackages d w)) =
        trace (snd (publishExpPackages_try d w)) @ [ConsoleError err]) \<and>
   ((\<forall>err. fst (publishExpPackages_try d w) \<noteq> Throw err) \<longrightarrow>
      publishExpPackages d w = publishExpPackages_try d w \<and> exit_code d w = 0) \<and>
   (\<forall>err. fst (publishExpPackages d w) \<noteq> Throw err) \<and>
   (trace w = [] \<and> \<not> answers w ''resetWorkingTree'' \<and>
    Prompt ''resetWorkingTree'' \<in> set (trace (snd (publishExpPackages d w))) \<longrightarrow>
      fst (publishExpPackages d w) = Exit 0 \<and> exit_code d w = 0) \<and>
   (trace w = [] \<and> \<not> answers w ''versionCheck'' \<and>
    Prompt ''versionCheck'' \<in> set (trace (snd (publishExpPackages d w))) \<longrightarrow>
      fst (publishExpPackages d w) = Exit 1 \<and> exit_code d w = 1 \<and>
      last (trace (snd (publishExpPackages d w))) = ConsoleError VersionCheckFailed)"
proof -
  obtain r w' where run: "publishExpPackages_try d w = (r, w')"
    by (cases "publishExpPackages_try d w")
  note caught = publishExpPackages_run [OF run]
  have prompts: "Prompt q \<in> set (trace (snd (publishExpPackages d w))) \<longleftrightarrow> Prompt q \<in> set (trace w')"
    for q
    unfolding trace_publishExpPackages [OF run] by (auto split: outcome.splits)
  have zero: "c = 0" if "r = Exit c" for c
    using exit_only_zero [of d w c w'] run that by simp
  have 1: "fst (publishExpPackages d w) =
     (case r of Throw err \<Rightarrow> Exit 1 | Exit c \<Rightarrow> Exit 0 | Ok u \<Rightarrow> Ok u)"
    using caught zero by (cases r) auto
  have 2: "exit_code d w = (case r of Throw err \<Rightarrow> 1 | _ \<Rightarrow> 0)"
    using 1 by (cases r) (auto simp: exit_code_def)
  have 3: "fst (publishExpPackages d w) = Exit 1 \<and> exit_code d w = 1 \<and>
      trace (snd (publishExpPackages d w)) = trace w' @ [ConsoleError err]"
    if "r = Throw err" for err
    using caught 2 that by simp
  have 4: "publishExpPackages d w = (r, w') \<and> exit_code d w = 0"
    if "\<forall>err. r \<noteq> Throw err"
    using caught 2 that by (cases r) auto
  have 5: "fst (publishExpPackages d w) \<noteq> Throw err" for err
    using 1 by (cases r) auto
  have 6: "fst (publishExpPackages d w) = Exit 0 \<and> exit_code d w = 0"
    if "trace w = []" "\<not> answers w ''resetWorkingTree''"
      "Prompt ''resetWorkingTree'' \<in> set (trace (snd (publishExpPackages d w)))"
  proof -
    from reset_declined_exits [OF run] that prompts have "r = Exit 0"
      by simp
    with 1 2 show ?thesis by simp
  qed
  have 7: "fst (publishExpPackages d w) = Exit 1 \<and> exit_code d w = 1 \<and>
      last (trace (snd (publishExpPackages d w))) = ConsoleError VersionCheckFailed"
    if "trace w = []" "\<not> answers w ''versionCheck''"
      "Prompt ''versionCheck'' \<in> set (trace (snd (publishExpPackages d w)))"
  proof -
    from version_declined_throws [OF run] that prompts have "r = Throw VersionCheckFailed"
      by simp
    with 3 [of VersionCheckFailed] show ?thesis by simp
  qed
  from 1 2 3 4 5 6 7 show ?thesis
    unfolding run fst_conv snd_conv by blast
qed

theorem exit_codes_witness:
  "fst (publishExpPackages False (scenario ''@firebase'' [''resetWorkingTree''] [])) = Exit 0 \<and>
   exit_code False (scenario ''@firebase'' [''resetWorkingTree''] []) = 0 \<and>
   fst (publishExpPackages False (scenario ''@firebase'' [''versionCheck''] [])) = Exit 1 \<and>
   exit_code False (scenario ''@firebase'' [''versionCheck''] []) = 1 \<and>
   last (trace (snd (publishExpPackages False (scenario ''@firebase'' [''versionCheck''] [])))) =
     ConsoleError VersionCheckFailed \<and>
   fst (publishExpPackages_try True (scenario ''@firebase'' [] [])) = Ok () \<and>
   publishExpPackages True (scenario ''@firebase'' [] []) =
     publishExpPackages_try True (scenario ''@firebase'' [] []) \<and>
   exit_code True (scenario ''@firebase'' [] []) = 0"
proof -
  let ?reset = "scenario ''@firebase'' [''resetWorkingTree''] []"
  let ?check = "scenario ''@firebase'' [''versionCheck''] []"
  let ?yes = "scenario ''@firebase'' [] []"
  have a: "trace ?reset = [] \<and> \<not> answers ?reset ''resetWorkingTree'' \<and>
      Prompt ''resetWorkingTree'' \<in> set (trace (snd (publishExpPackages False ?reset)))"
    using run_reset_declined by (simp add: scenario_def)
  have b: "trace ?check = [] \<and> \<not> answers ?check ''versionCheck'' \<and>
      Prompt ''versionCheck'' \<in> set (trace (snd (publishExpPackages False ?check)))"
    using run_version_declined by (simp add: scenario_def)
  have c: "\<forall>err. fst (publishExpPackages_try True ?yes) \<noteq> Throw err"
    by (simp add: run_dry)
  from exit_codes [of False ?reset] a
  have 1: "fst (publishExpPackages False ?reset) = Exit 0 \<and> exit_code False ?reset = 0"
    by blast
  from exit_codes [of False ?check] b
  have 2: "fst (publishExpPackages False ?check) = Exit 1 \<and> exit_code False ?check = 1 \<and>
      last (trace (snd (publishExpPackages False ?check))) = ConsoleError VersionCheckFailed"
    by blast
  from exit_codes [of True ?yes] c
  have 3: "publishExpPackages True ?yes = publishExpPackages_try True ?yes \<and>
      exit_code True ?yes = 0"
    by blast
  from 1 2 3 run_dry show ?thesis
    by simp
qed

text \<open>
  C4, as the code has it. \<^verbatim>\<open>publishToNpm\<close> calls \<^verbatim>\<open>npm publish\<close> for every package, one after
  the other in the order of the paths, whether earlier ones failed or not; every task ends
  as completed or failed. Its result is success when no publication failed, and otherwise
  the \<^verbatim>\<open>ListrError\<close> that holds the error of every failed package. In the workflow that
  error is caught at the top: when a publication fails, every package of the working set
  has been tried, the exit code is 1, and the operator is never asked whether to reset the
  working tree. That question is only reached when every publication has succeeded.
\<close>

theorem publish_failures_are_collected_then_fatal:
  "((\<forall>p \<in> set ps. files w (p @ ''/package.json'') \<noteq> None) \<longrightarrow>
      publishToNpm ps d w =
        ((if publish_errors d w ps = [] then Ok ()
          else Throw (ListrError (publish_errors d w ps))),
         w\<lparr>trace := trace w @ publish_events d w ps\<rparr>) \<and>
      filter is_spawn (publish_events d w ps) = map (\<lambda>p. Spawn ''npm'' (publish_args d) p) ps) \<and>
   (trace w = [] \<and> spawnFails w ''npm'' (publish_args d) p \<and>
    Spawn ''npm'' (publish_args d) p \<in> set (trace (snd (publishExpPackages d w))) \<longrightarrow>
      exit_code d w = 1 \<and>
      Prompt ''resetWorkingTree'' \<notin> set (trace (snd (publishExpPackages d w))) \<and>
      (\<forall>q \<in> set (working_set w).
         Spawn ''npm'' (publish_args d) q \<in> set (trace (snd (publishExpPackages d w))))) \<and>
   (trace w = [] \<and>
    Prompt ''resetWorkingTree'' \<in> set (trace (snd (publishExpPackages d w))) \<longrightarrow>
      (\<forall>q \<in> set (working_set w).
         \<not> spawnFails w ''npm'' (publish_args d) q \<and>
         Spawn ''npm'' (publish_args d) q \<in> set (trace (snd (publishExpPackages d w)))))"
proof -
  obtain r w' where run: "publishExpPackages_try d w = (r, w')"
    by (cases "publishExpPackages_try d w")
  have events: "e \<in> set (trace (snd (publishExpPackages d w))) \<longleftrightarrow> e \<in> set (trace w')"
    if "\<And>err. e \<noteq> ConsoleError err" for e
    unfolding trace_publishExpPackages [OF run] using that by (auto split: outcome.splits)
  have 1: "publishToNpm ps d w =
        ((if publish_errors d w ps = [] then Ok ()
          else Throw (ListrError (publish_errors d w ps))),
         w\<lparr>trace := trace w @ publish_events d w ps\<rparr>)"
    if "\<forall>p \<in> set ps. files w (p @ ''/package.json'') \<noteq> None"
    using that by (rule publishToNpm_run)
  have 2: "exit_code d w = 1 \<and>
      Prompt ''resetWorkingTree'' \<notin> set (trace (snd (publishExpPackages d w))) \<and>
      (\<forall>q \<in> set (working_set w).
         Spawn ''npm'' (publish_args d) q \<in> set (trace (snd (publishExpPackages d w))))"
    if "trace w = []" "spawnFails w ''npm'' (publish_args d) p"
      "Spawn ''npm'' (publish_args d) p \<in> set (trace (snd (publishExpPackages d w)))"
    using failed_publish_halts [OF run, of p] that exit_code_run [OF run]
    by (simp add: events publish_fails_def)
  have 3: "\<forall>q \<in> set (working_set w).
         \<not> spawnFails w ''npm'' (publish_args d) q \<and>
         Spawn ''npm'' (publish_args d) q \<in> set (trace (snd (publishExpPackages d w)))"
    if "trace w = []" "Prompt ''resetWorkingTree'' \<in> set (trace (snd (publishExpPackages d w)))"
    using reset_prompt_after_success [OF run] that
    by (simp add: events publish_fails_def)
  from 1 2 3 show ?thesis
    by (simp add: publish_events_spawns)
qed

theorem publish_failures_are_collected_then_fatal_witness:
  "fst (publishToNpm scenario_paths False
          (scenario ''@firebase'' [] [''/repo/packages-exp/a-exp''])) =
     Throw (ListrError [SpawnFailed ''npm'' [''publish'', ''--access'', ''public'', ''--tag'', ''exp'']
                          ''/repo/packages-exp/a-exp'']) \<and>
   filter is_spawn (trace (snd (publishToNpm scenario_paths False
          (scenario ''@firebase'' [] [''/repo/packages-exp/a-exp''])))) =
     map (\<lambda>p. Spawn ''npm'' [''publish'', ''--access'', ''public'', ''--tag'', ''exp''] p)
       scenario_paths \<and>
   spawnFails (scenario ''@firebase'' [] [''/repo/packages-exp/a-exp'']) ''npm''
     (publish_args False) ''/repo/packages-exp/a-exp'' \<and>
   Spawn ''npm'' (publish_args False) ''/repo/packages-exp/a-exp'' \<in>
     set (trace (snd (publishExpPackages False
            (scenario ''@firebase'' [] [''/repo/packages-exp/a-exp''])))) \<and>
   exit_code False (scenario ''@firebase'' [] [''/repo/packages-exp/a-exp'']) = 1 \<and>
   Prompt ''resetWorkingTree'' \<notin>
     set (trace (snd (publishExpPackages False
            (scenario ''@firebase'' [] [''/repo/packages-exp/a-exp''])))) \<and>
   Spawn ''npm'' (publish_args False) ''/repo/packages-exp/b-exp'' \<in>
     set (trace (snd (publishExpPackages False
            (scenario ''@firebase'' [] [''/repo/packages-exp/a-exp''])))) \<and>
   Prompt ''resetWorkingTree'' \<in>
     set (trace (snd (publishExpPackages False (scenario ''@firebase'' [] [])))) \<and>
   \<not> spawnFails (scenario ''@firebase'' [] []) ''npm'' (publish_args False)
       ''/repo/packages-exp/a-exp''"
proof -
  let ?w = "scenario ''@firebase'' [] [''/repo/packages-exp/a-exp'']"
  let ?v = "scenario ''@firebase'' [] []"
  have readable: "\<forall>p \<in> set scenario_paths. files ?w (p @ ''/package.json'') \<noteq> None"
    by (simp add: scenario_def scenario_files_def scenario_paths_def)
  have errors: "publish_errors False ?w scenario_paths =
      [SpawnFailed ''npm'' [''publish'', ''--access'', ''public'', ''--tag'', ''exp'']
         ''/repo/packages-exp/a-exp'']"
    by (simp add: publish_errors_def publish_fails_def publish_args_def scenario_def
        scenario_paths_def)
  have f: "spawnFails ?w ''npm'' (publish_args False) ''/repo/packages-exp/a-exp''"
    by (simp add: scenario_def)
  have s: "Spawn ''npm'' (publish_args False) ''/repo/packages-exp/a-exp'' \<in>
     set (trace (snd (publishExpPackages False ?w)))"
    unfolding run_publish_failure by (simp add: publish_args_def)
  have b: "''/repo/packages-exp/b-exp'' \<in> set (working_set ?w)"
    by (simp add: working_set_def scenario_def scenario_paths_def)
  have a: "''/repo/packages-exp/a-exp'' \<in> set (working_set ?v)"
    by (simp add: working_set_def scenario_def scenario_paths_def)
  have reset: "Prompt ''resetWorkingTree'' \<in> set (trace (snd (publishExpPackages False ?v)))"
    unfolding run_all_yes_trace by simp
  note failing = publish_failures_are_collected_then_fatal
    [of scenario_paths ?w False "''/repo/packages-exp/a-exp''"]
  note succeeding = publish_failures_are_collected_then_fatal [of "[]" ?v False "[]"]
  from failing readable errors have 1: "fst (publishToNpm scenario_paths False ?w) =
     Throw (ListrError [SpawnFailed ''npm'' [''publish'', ''--access'', ''public'', ''--tag'', ''exp'']
                          ''/repo/packages-exp/a-exp''])"
    by simp
  from failing readable have 2: "filter is_spawn (trace (snd (publishToNpm scenario_paths False ?w))) =
     map (\<lambda>p. Spawn ''npm'' [''publish'', ''--access'', ''public'', ''--tag'', ''exp''] p)
       scenario_paths"
    by (simp add: publish_args_def)
  from failing f s b have 3: "exit_code False ?w = 1 \<and>
      Prompt ''resetWorkingTree'' \<notin> set (trace (snd (publishExpPackages False ?w))) \<and>
      Spawn ''npm'' (publish_args False) ''/repo/packages-exp/b-exp'' \<in>
        set (trace (snd (publishExpPackages False ?w)))"
    by simp
  from succeeding reset a have 4: "\<not> spawnFails ?v ''npm'' (publish_args False)
       ''/repo/packages-exp/a-exp''"
    by simp
  from 1 2 f s 3 reset 4 show ?thesis
    by blast
qed

text \<open>
  C4 as the specification states it fails: when the publication of \<^verbatim>\<open>@firebase/a\<close> fails and
  the others succeed, every package is tried, but the run ends with exit code 1 and
  without the question whether to reset the working tree.
\<close>

theorem publish_failure_reaches_reset_counterexample:
  "spawnFails (scenario ''@firebase'' [] [''/repo/packages-exp/a-exp'']) ''npm''
     [''publish'', ''--access'', ''public'', ''--tag'', ''exp''] ''/repo/packages-exp/a-exp'' \<and>
   \<not> spawnFails (scenario ''@firebase'' [] [''/repo/packages-exp/a-exp'']) ''npm''
     [''publish'', ''--access'', ''public'', ''--tag'', ''exp''] ''/repo/packages-exp/b-exp'' \<and>
   Spawn ''npm'' [''publish'', ''--access'', ''public'', ''--tag'', ''exp'']
     ''/repo/packages-exp/b-exp'' \<in>
     set (trace (snd (publishExpPackages False
            (scenario ''@firebase'' [] [''/repo/packages-exp/a-exp''])))) \<and>
   Prompt ''resetWorkingTree'' \<notin>
     set (trace (snd (publishExpPackages False
            (scenario ''@firebase'' [] [''/repo/packages-exp/a-exp''])))) \<and>
   exit_code False (scenario ''@firebase'' [] [''/repo/packages-exp/a-exp'']) = 1"
  unfolding run_publish_failure
  by (simp add: exit_code_def run_publish_failure_exit) (simp add: scenario_def)

text \<open>
  C1 fails on the code. In a run that is not a dry run, where nothing fails and the
  operator answers yes to every question, no \<^verbatim>\<open>git add\<close>, \<^verbatim>\<open>git commit\<close> or \<^verbatim>\<open>git push\<close> is
  executed: after the question \<^verbatim>\<open>commitAndPush\<close> the call of the answer throws a
  \<^verbatim>\<open>TypeError\<close>, which is logged, and the exit code is 1.
\<close>

theorem commit_and_push_accepted_fails:
  "trace (snd (publishExpPackages False (scenario ''@firebase'' [] []))) =
     [Spawn ''yarn''
        [''lerna'', ''run'', ''--scope'', ''@firebase/app'', ''--scope'', ''@firebase/functions'',
         ''--scope'', ''@firebase/remote-config'', ''--scope'', ''@firebase/util'', ''--scope'',
         ''@firebase/component'', ''--scope'', ''@firebase/logger'', ''--scope'',
         ''@firebase/webchannel-wrapper'', ''build''] ''/repo'',
      Spawn ''yarn''
        [''lerna'', ''run'', ''--scope'', ''@firebase/*-exp'', ''--scope'', ''@firebase/*-compat'',
         ''build:release''] ''/repo'',
      Spawn ''yarn'' [''lerna'', ''run'', ''--scope'', ''@firebase/firestore'', ''prebuild''] ''/repo'',
      Spawn ''yarn''
        [''lerna'', ''run'', ''--scope'', ''@firebase/firestore'', ''build:exp:release''] ''/repo'',
      Spawn ''yarn'' [''lerna'', ''run'', ''--scope'', ''firebase-exp'', ''build:release''] ''/repo'',
      GitRevparse [''--short'', ''HEAD''], GitRevparse [''--short'', ''HEAD''],
      GitRevparse [''--short'', ''HEAD''],
      WriteFile ''/repo/packages-exp/firebase-exp/package.json'',
      WriteFile ''/repo/packages-exp/a-exp/package.json'',
      WriteFile ''/repo/packages-exp/b-exp/package.json'',
      WriteFile ''/repo/packages/firestore/package.json'',
      Prompt ''versionCheck'',
      Spawn ''npm'' [''publish'', ''--access'', ''public'', ''--tag'', ''exp'']
        ''/repo/packages-exp/firebase-exp'',
      TaskCompleted ''firebase@1.2.4'',
      Spawn ''npm'' [''publish'', ''--access'', ''public'', ''--tag'', ''exp'']
        ''/repo/packages-exp/a-exp'',
      TaskCompleted ''@firebase/a@0.5.0-exp.abcdef'',
      Spawn ''npm'' [''publish'', ''--access'', ''public'', ''--tag'', ''exp'']
        ''/repo/packages-exp/b-exp'',
      TaskCompleted ''@firebase/b@0.5.0-exp.abcdef'',
      Spawn ''npm'' [''publish'', ''--access'', ''public'', ''--tag'', ''exp'']
        ''/repo/packages/firestore'',
      TaskCompleted ''@firebase/firestore@2.1.6-exp.abcdef'',
      Prompt ''resetWorkingTree'', GitCheckout,
      WriteFile ''/repo/packages-exp/firebase-exp/package.json'',
      Prompt ''commitAndPush'',
      ConsoleError (TypeError ''commitAndPush is not a function'')] \<and>
   exit_code False (scenario ''@firebase'' [] []) = 1"
  using run_all_yes_trace run_all_yes by (simp add: exit_code_def)

end
